theory Spec2Isabelle
  imports Complex_Main
begin

section \<open>Numbers\<close>

text \<open>
  The simulator is JavaScript; every quantity is a \<open>Number\<close>, an IEEE-754 double. The
  embedding reads a finite \<open>Number\<close> as a \<^typ>\<open>real\<close> and the arithmetic operations on
  finite numbers as the exact operations of the reals: the rounding error of doubles is
  outside the model. Where the code can leave the range of finite doubles with the inputs it
  accepts (the table of \<open>cpCalc\<close>) or computes with \<open>undefined\<close> (\<open>simulateQueue\<close>), the
  values \<open>Infinity\<close> and \<open>NaN\<close> are part of the model. Loop counters and server counts are
  \<^typ>\<open>nat\<close>.
\<close>

text \<open>
  \<open>factorial\<close> of \<open>src/index.js\<close>:
  \<^verbatim>\<open>if (n < 0) return null; if (n === 0 || n === 1) return 1;
  let result = 1; for (let i = 2; i <= n; i++) result *= i; return result;\<close>
  Every caller passes a loop counter or a server count, so the \<open>null\<close> branch for a negative
  argument is not reachable and the argument is a \<^typ>\<open>nat\<close>.
\<close>

definition factorial :: "nat \<Rightarrow> real" where
  "factorial n =
     (if n = 0 \<or> n = 1 then 1
      else fold (\<lambda>i result. result * real i) [2..<Suc n] 1)"

text \<open>
  \<open>factorial\<close> of \<open>src/unnamed/part_000\<close>:
  \<^verbatim>\<open>if (n <= 1) return 1; let result = 1; for (let i = 2; i <= n; i++) result *= i;\<close>
\<close>

definition factorial_mgc :: "nat \<Rightarrow> real" where
  "factorial_mgc n =
     (if n \<le> 1 then 1
      else fold (\<lambda>i result. result * real i) [2..<Suc n] 1)"

section \<open>Theoretical metrics\<close>

record mm1_params =
  mm1_rho :: real
  mm1_lq :: real
  mm1_wq :: real
  mm1_ws :: real
  mm1_ls :: real

text \<open>\<open>calculateMM1Params(lambda, mu)\<close> of \<open>src/index.js\<close>.\<close>

definition calculateMM1Params :: "real \<Rightarrow> real \<Rightarrow> mm1_params" where
  "calculateMM1Params lambda mu =
     (let rho = lambda / mu;
          lq = (rho ^ 2) / (1 - rho);
          wq = lq / lambda;
          ws = wq + (1 / mu);
          ls = lambda * ws
      in \<lparr>mm1_rho = rho, mm1_lq = lq, mm1_wq = wq, mm1_ws = ws, mm1_ls = ls\<rparr>)"

record mmc_params =
  rho :: real
  p0 :: real
  lq :: real
  wq :: real
  ws :: real
  ls :: real

text \<open>
  \<open>calculateMultiServerParams(lambda, mu, c)\<close> of \<open>src/index.js\<close>. The \<open>for\<close> loop over
  \<open>n = 0, ..., c - 1\<close> that accumulates \<open>sum\<close> is a \<^const>\<open>fold\<close> over \<open>[0..<c]\<close>.
\<close>

definition calculateMultiServerParams :: "real \<Rightarrow> real \<Rightarrow> nat \<Rightarrow> mmc_params" where
  "calculateMultiServerParams lambda mu c =
     (let sum = fold (\<lambda>n sum. sum + (lambda / mu) ^ n / factorial n) [0..<c] 0;
          rho = lambda / (real c * mu);
          p0 = 1 / (sum + ((lambda / mu) ^ c) / (factorial c * (1 - rho)));
          lq = (p0 * ((lambda / mu) ^ c) * rho) / (factorial c * ((1 - rho) ^ 2));
          wq = lq / lambda;
          ws = wq + (1 / mu);
          ls = lambda * ws
      in \<lparr>rho = rho, p0 = p0, lq = lq, wq = wq, ws = ws, ls = ls\<rparr>)"

text \<open>
  \<open>calculateMMcParams(lambda, mu, c)\<close> of \<open>src/unnamed/part_000\<close>: the same computation
  written with \<open>Math.pow\<close> and that file's \<open>factorial\<close>.
\<close>

definition calculateMMcParams :: "real \<Rightarrow> real \<Rightarrow> nat \<Rightarrow> mmc_params" where
  "calculateMMcParams lambda mu c =
     (let sum = fold (\<lambda>n sum. sum + (lambda / mu) ^ n / factorial_mgc n) [0..<c] 0;
          rho = lambda / (real c * mu);
          p0 = 1 / (sum + ((lambda / mu) ^ c / (factorial_mgc c * (1 - rho))));
          lq = (p0 * (lambda / mu) ^ c * rho) / (factorial_mgc c * (1 - rho) ^ 2);
          wq = lq / lambda;
          ws = wq + (1 / mu);
          ls = lambda * ws
      in \<lparr>rho = rho, p0 = p0, lq = lq, wq = wq, ws = ws, ls = ls\<rparr>)"

record mgc_params =
  mgc_rho :: real
  mgc_lq :: real
  mgc_wq :: real
  mgc_ws :: real
  mgc_ls :: real
  Cs_squared :: real

text \<open>\<open>calculateMGCParams(lambda, serviceMeanTime, c, shapeK)\<close> of \<open>src/unnamed/part_000\<close>.\<close>

definition calculateMGCParams :: "real \<Rightarrow> real \<Rightarrow> nat \<Rightarrow> real \<Rightarrow> mgc_params" where
  "calculateMGCParams lambda serviceMeanTime c shapeK =
     (let mu = 1 / serviceMeanTime;
          rho = lambda / (real c * mu);
          Cs_squared = 1 / shapeK;
          mmParams = calculateMMcParams lambda mu c;
          wq = wq mmParams * ((1 + Cs_squared) / 2);
          lq = lambda * wq;
          ws = wq + serviceMeanTime;
          ls = lambda * ws
      in \<lparr>mgc_rho = rho, mgc_lq = lq, mgc_wq = wq, mgc_ws = ws, mgc_ls = ls,
          Cs_squared = Cs_squared\<rparr>)"

text \<open>The Erlang-C formulas as the specification writes them.\<close>

definition erlang_p0 :: "real \<Rightarrow> real \<Rightarrow> nat \<Rightarrow> real" where
  "erlang_p0 lambda mu c =
     inverse ((\<Sum>n<c. (lambda / mu) ^ n / fact n)
              + (lambda / mu) ^ c / (fact c * (1 - lambda / (real c * mu))))"

definition erlang_lq :: "real \<Rightarrow> real \<Rightarrow> nat \<Rightarrow> real" where
  "erlang_lq lambda mu c =
     erlang_p0 lambda mu c * (lambda / mu) ^ c * (lambda / (real c * mu))
       / (fact c * (1 - lambda / (real c * mu)) ^ 2)"

section \<open>Arrival process sampler\<close>

text \<open>
  The table computation of \<open>cpCalc\<close> leaves the range of finite doubles for large means:
  \<open>Math.pow\<close> and \<open>factorial\<close> overflow to \<open>Infinity\<close>, \<open>Math.exp\<close> underflows to 0, and
  \<open>0 * Infinity\<close> is \<open>NaN\<close>. Its values are therefore modelled with the special values of
  IEEE-754: a finite number (read as a real, as everywhere else), the two infinities, or
  \<open>NaN\<close>. A finite result larger than \<open>Number.MAX_VALUE\<close> \<open>= 2 ^ 1024 - 2 ^ 971\<close> in absolute value
  becomes an infinity; rounding of results inside the range is not modelled.
\<close>

datatype fnum = Fin real | PInf | NInf | Nan

definition MAX_VALUE :: real where
  "MAX_VALUE = 2 ^ 1024 - 2 ^ 971"

definition MIN_VALUE :: real where
  \<comment> \<open>the smallest positive double\<close>
  "MIN_VALUE = 1 / 2 ^ 1074"

definition overflow :: "real \<Rightarrow> fnum" where
  "overflow x = (if x > MAX_VALUE then PInf else if x < - MAX_VALUE then NInf else Fin x)"

text \<open>
  \<open>Math.exp\<close> of a finite argument: a result of at most half the smallest positive double
  is rounded to 0.
\<close>

definition Math_exp :: "real \<Rightarrow> fnum" where
  "Math_exp x = (if exp x \<le> MIN_VALUE / 2 then Fin 0 else overflow (exp x))"

text \<open>\<open>Math.pow\<close> of a finite base and a loop counter.\<close>

definition Math_pow :: "real \<Rightarrow> nat \<Rightarrow> fnum" where
  "Math_pow x n = overflow (x ^ n)"

text \<open>The operators \<open>*\<close>, \<open>/\<close>, \<open>+\<close>, \<open><\<close>, \<open>>=\<close> and \<open>Math.min\<close> on these values.\<close>

fun f_mul :: "fnum \<Rightarrow> fnum \<Rightarrow> fnum" where
  "f_mul (Fin a) (Fin b) = overflow (a * b)"
| "f_mul (Fin a) PInf = (if a = 0 then Nan else if 0 < a then PInf else NInf)"
| "f_mul (Fin a) NInf = (if a = 0 then Nan else if 0 < a then NInf else PInf)"
| "f_mul PInf (Fin b) = (if b = 0 then Nan else if 0 < b then PInf else NInf)"
| "f_mul NInf (Fin b) = (if b = 0 then Nan else if 0 < b then NInf else PInf)"
| "f_mul PInf PInf = PInf"
| "f_mul PInf NInf = NInf"
| "f_mul NInf PInf = NInf"
| "f_mul NInf NInf = PInf"
| "f_mul Nan _ = Nan"
| "f_mul _ Nan = Nan"

fun f_div :: "fnum \<Rightarrow> fnum \<Rightarrow> fnum" where
  "f_div (Fin a) (Fin b) =
     (if b = 0 then (if a = 0 then Nan else if 0 < a then PInf else NInf)
      else overflow (a / b))"
| "f_div (Fin a) PInf = Fin 0"
| "f_div (Fin a) NInf = Fin 0"
| "f_div PInf (Fin b) = (if 0 \<le> b then PInf else NInf)"
| "f_div NInf (Fin b) = (if 0 \<le> b then NInf else PInf)"
| "f_div _ _ = Nan"

fun f_add :: "fnum \<Rightarrow> fnum \<Rightarrow> fnum" where
  "f_add (Fin a) (Fin b) = overflow (a + b)"
| "f_add (Fin a) PInf = PInf"
| "f_add (Fin a) NInf = NInf"
| "f_add PInf (Fin b) = PInf"
| "f_add NInf (Fin b) = NInf"
| "f_add PInf PInf = PInf"
| "f_add NInf NInf = NInf"
| "f_add _ _ = Nan"

fun f_lt :: "fnum \<Rightarrow> fnum \<Rightarrow> bool" where
  "f_lt (Fin a) (Fin b) = (a < b)"
| "f_lt (Fin a) PInf = True"
| "f_lt NInf (Fin b) = True"
| "f_lt NInf PInf = True"
| "f_lt _ _ = False"

fun f_ge :: "fnum \<Rightarrow> fnum \<Rightarrow> bool" where
  "f_ge (Fin a) (Fin b) = (a \<ge> b)"
| "f_ge PInf (Fin b) = True"
| "f_ge (Fin a) NInf = True"
| "f_ge PInf PInf = True"
| "f_ge PInf NInf = True"
| "f_ge NInf NInf = True"
| "f_ge _ _ = False"

fun Math_min :: "fnum \<Rightarrow> fnum \<Rightarrow> fnum" where
  "Math_min (Fin a) (Fin b) = Fin (min a b)"
| "Math_min Nan _ = Nan"
| "Math_min _ Nan = Nan"
| "Math_min NInf _ = NInf"
| "Math_min _ NInf = NInf"
| "Math_min PInf y = y"
| "Math_min x PInf = x"

text \<open>
  \<open>cpCalc(arrivalMean)\<close>, the same text in both source files; each file's copy calls that
  file's \<open>factorial\<close>, and the two agree on every count (lemmas \<open>factorial_fact\<close> and
  \<open>factorial_mgc_fact\<close>). The loop of \<open>factorial\<close> multiplies increasing partial products, so
  its double result is \<open>Infinity\<close> exactly when the product leaves the range:
  \<open>overflow (factorial count)\<close>. The \<open>while\<close> loop runs on \<open>cp\<close> and \<open>count\<close> and pushes one
  element on each of the two arrays per round; \<open>count\<close> is bounded by 200, which is the
  termination measure. The function returns the pair \<open>[cparray, cplookuparray]\<close>.
\<close>

function cpCalc_loop :: "real \<Rightarrow> fnum \<Rightarrow> nat \<Rightarrow> fnum list \<Rightarrow> fnum list \<Rightarrow> fnum list \<times> fnum list" where
  "cpCalc_loop arrivalMean cp count cparray cplookuparray =
     (if f_lt cp (Fin (9999 / 10000)) \<and> count < 200 then
        (let calc = f_div (f_mul (Math_exp (- arrivalMean)) (Math_pow arrivalMean count))
                          (overflow (factorial count));
             prevCp = cp;
             cp' = f_add cp calc
         in cpCalc_loop arrivalMean cp' (Suc count)
              (cparray @ [Math_min cp' (Fin 1)]) (cplookuparray @ [prevCp]))
      else (cparray, cplookuparray))"
  by pat_completeness auto
termination
  by (relation "measure (\<lambda>(arrivalMean, cp, count, cparray, cplookuparray). 200 - count)") auto

definition cpCalc :: "real \<Rightarrow> fnum list \<times> fnum list" where
  "cpCalc arrivalMean = cpCalc_loop arrivalMean (Fin 0) 0 [] []"

text \<open>
  The inner \<open>for\<close> loop of \<open>generateInterarrivals\<close>: scan the table from \<open>j = 0\<close>, stop at
  the first \<open>j\<close> with \<open>random >= cplookuparray[j] && random < cparray[j]\<close> and return \<open>j + 1\<close>;
  the initial value \<open>1\<close> stays when no entry matches. The two arrays have the same length
  (one push on each per round of \<open>cpCalc\<close>), so the scan runs over their \<^const>\<open>zip\<close>,
  carrying the index.
\<close>

fun scanTable :: "real \<Rightarrow> (fnum \<times> fnum) list \<Rightarrow> nat \<Rightarrow> real" where
  "scanTable random [] j = 1"
| "scanTable random ((lower, upper) # rest) j =
     (if f_ge (Fin random) lower \<and> f_lt (Fin random) upper then real (j + 1)
      else scanTable random rest (Suc j))"

lemma scanTable_ge_1: "1 \<le> scanTable random table j"
  by (induction random table j rule: scanTable.induct) auto

text \<open>
  The outer \<open>while (totalTime < maxTime)\<close> loop. \<open>Math.random()\<close> is the only source of
  entropy; the model takes the sequence of its results as the argument \<open>rnd\<close> and the number
  \<open>n\<close> of draws made so far. Every round adds a gap of at least 1 to \<open>totalTime\<close>, so the loop
  ends.
\<close>

function generate_loop ::
  "(nat \<Rightarrow> real) \<Rightarrow> (fnum \<times> fnum) list \<Rightarrow> real \<Rightarrow> nat \<Rightarrow> real list \<Rightarrow> real \<Rightarrow> real list \<times> real" where
  "generate_loop rnd table maxTime n interarrivals totalTime =
     (if totalTime < maxTime then
        (let random = rnd n;
             interarrival = scanTable random table 0
         in generate_loop rnd table maxTime (Suc n)
              (interarrivals @ [interarrival]) (totalTime + interarrival))
      else (interarrivals, totalTime))"
  by pat_completeness auto
termination
proof (relation "measure (\<lambda>(rnd, table, maxTime, n, interarrivals, totalTime).
                            nat \<lceil>maxTime - totalTime\<rceil>)")
  show "wf (measure (\<lambda>(rnd :: nat \<Rightarrow> real, table :: (fnum \<times> fnum) list, maxTime :: real,
                       n :: nat, interarrivals :: real list, totalTime :: real).
                      nat \<lceil>maxTime - totalTime\<rceil>))"
    by simp
next
  fix rnd :: "nat \<Rightarrow> real" and table :: "(fnum \<times> fnum) list" and maxTime totalTime x xa :: real
    and n :: nat and interarrivals :: "real list"
  assume lt: "totalTime < maxTime" and x: "x = rnd n" and xa: "xa = scanTable x table 0"
  have "1 \<le> xa" unfolding xa by (rule scanTable_ge_1)
  then have "\<lceil>maxTime - (totalTime + xa)\<rceil> \<le> \<lceil>maxTime - totalTime - 1\<rceil>"
    by (intro ceiling_mono) simp
  also have "\<dots> = \<lceil>maxTime - totalTime\<rceil> - 1" by simp
  finally have a: "\<lceil>maxTime - (totalTime + xa)\<rceil> < \<lceil>maxTime - totalTime\<rceil>" by simp
  have b: "0 < \<lceil>maxTime - totalTime\<rceil>" using lt by simp
  from a b show "((rnd, table, maxTime, Suc n, interarrivals @ [xa], totalTime + xa),
                 (rnd, table, maxTime, n, interarrivals, totalTime))
          \<in> measure (\<lambda>(rnd, table, maxTime, n, interarrivals, totalTime).
                        nat \<lceil>maxTime - totalTime\<rceil>)"
    by simp
qed

text \<open>
  \<open>generateInterarrivals(mean, maxTime)\<close>, the same text in both source files. Nothing in
  the \<open>try\<close> block can throw (\<open>cpCalc\<close> only does arithmetic on numbers), so the \<open>catch\<close>
  branch with the exponential sampler is not reachable and is not part of the model. The
  final \<open>pop()\<close> removes the last element.
\<close>

definition generateInterarrivals :: "real \<Rightarrow> real \<Rightarrow> (nat \<Rightarrow> real) \<Rightarrow> real list" where
  "generateInterarrivals mean maxTime rnd =
     (let (cparray, cplookuparray) = cpCalc mean;
          (interarrivals, totalTime) =
             generate_loop rnd (zip cplookuparray cparray) maxTime 0 [0] 0
      in if totalTime > maxTime then butlast interarrivals else interarrivals)"

text \<open>
  The gap that the \<open>n\<close>-th call of \<open>Math.random\<close> is turned into, and the table that
  \<open>generateInterarrivals\<close> scans.
\<close>

definition lookupTable :: "real \<Rightarrow> (fnum \<times> fnum) list" where
  "lookupTable mean = zip (snd (cpCalc mean)) (fst (cpCalc mean))"

definition sampledGap :: "real \<Rightarrow> (nat \<Rightarrow> real) \<Rightarrow> nat \<Rightarrow> real" where
  "sampledGap mean rnd n = scanTable (rnd n) (lookupTable mean) 0"

text \<open>The Poisson law, for comparison with the table.\<close>

definition poisson_pmf :: "real \<Rightarrow> nat \<Rightarrow> real" where
  "poisson_pmf rate k = exp (- rate) * rate ^ k / fact k"

definition poisson_below :: "real \<Rightarrow> nat \<Rightarrow> real" where
  \<comment> \<open>\<open>P(X < k)\<close>; \<open>P(X \<le> k)\<close> is \<open>poisson_below rate (Suc k)\<close>\<close>
  "poisson_below rate k = (\<Sum>i<k. poisson_pmf rate i)"

section \<open>Queue simulation\<close>

text \<open>
  \<open>Math.round\<close> rounds to the nearest integer, a half towards \<open>+\<infinity>\<close>;
  \<open>roundTo(value, decimals)\<close> is
  \<^verbatim>\<open>Math.round(value * Math.pow(10, decimals)) / Math.pow(10, decimals)\<close>.
\<close>

definition Math_round :: "real \<Rightarrow> real" where
  "Math_round x = of_int \<lfloor>x + 1 / 2\<rfloor>"

definition roundTo :: "real \<Rightarrow> nat \<Rightarrow> real" where
  "roundTo val decimals = Math_round (val * 10 ^ decimals) / 10 ^ decimals"

text \<open>
  Reading an array past its end gives \<open>undefined\<close> in JavaScript, and every arithmetic
  operation on \<open>undefined\<close> gives \<open>NaN\<close>. \<open>simulateQueue\<close> reads \<open>serviceTimes[i]\<close> and
  \<open>serverEndTimes[s]\<close> without a check, so its computed times are numbers or \<open>NaN\<close>:
  comparisons with \<open>NaN\<close> are false, \<open>Math.max\<close> and the arithmetic operations return \<open>NaN\<close>
  when an argument is \<open>NaN\<close>.
\<close>

datatype jsnum = Num real | NaN

fun js_add :: "jsnum \<Rightarrow> jsnum \<Rightarrow> jsnum" where
  "js_add (Num a) (Num b) = Num (a + b)"
| "js_add _ _ = NaN"

fun js_sub :: "jsnum \<Rightarrow> jsnum \<Rightarrow> jsnum" where
  "js_sub (Num a) (Num b) = Num (a - b)"
| "js_sub _ _ = NaN"

fun js_max :: "jsnum \<Rightarrow> jsnum \<Rightarrow> jsnum" where
  "js_max (Num a) (Num b) = Num (max a b)"
| "js_max _ _ = NaN"

fun js_lt :: "jsnum \<Rightarrow> jsnum \<Rightarrow> bool" where
  "js_lt (Num a) (Num b) = (a < b)"
| "js_lt _ _ = False"

fun js_gt :: "jsnum \<Rightarrow> jsnum \<Rightarrow> bool" where
  "js_gt (Num a) (Num b) = (a > b)"
| "js_gt _ _ = False"

fun js_roundTo :: "jsnum \<Rightarrow> nat \<Rightarrow> jsnum" where
  "js_roundTo (Num a) decimals = Num (roundTo a decimals)"
| "js_roundTo NaN decimals = NaN"

definition js_get :: "jsnum list \<Rightarrow> nat \<Rightarrow> jsnum" where
  \<comment> \<open>\<open>xs[i]\<close> as an operand of arithmetic\<close>
  "js_get xs i = (if i < length xs then xs ! i else NaN)"

definition js_set :: "jsnum list \<Rightarrow> nat \<Rightarrow> jsnum \<Rightarrow> jsnum list" where
  \<comment> \<open>\<open>xs[i] = v\<close>; an assignment past the end extends the array, the holes read as \<open>undefined\<close>\<close>
  "js_set xs i v =
     (if i < length xs then xs[i := v] else xs @ replicate (i - length xs) NaN @ [v])"

definition serviceAt :: "real list \<Rightarrow> nat \<Rightarrow> jsnum" where
  \<comment> \<open>\<open>serviceTimes[i]\<close>\<close>
  "serviceAt xs i = (if i < length xs then Num (xs ! i) else NaN)"

text \<open>
  The first loop of \<open>simulateQueue\<close>: \<open>arrivalTimes\<close> starts as \<open>[0]\<close> and the loop runs
  from \<open>i = 1\<close>, so \<open>interarrivals[0]\<close> is never read.
\<close>

fun arrivalTimes_loop :: "real \<Rightarrow> real list \<Rightarrow> real list" where
  "arrivalTimes_loop currentTime [] = []"
| "arrivalTimes_loop currentTime (gap # rest) =
     roundTo (currentTime + gap) 2 # arrivalTimes_loop (currentTime + gap) rest"

definition arrivalTimes_of :: "real list \<Rightarrow> real list" where
  "arrivalTimes_of gaps = 0 # arrivalTimes_loop 0 (tl gaps)"

text \<open>
  The scan for the server that is free first: start with server 0 and replace it by a
  later server \<open>s\<close> only when \<open>serverEndTimes[s] < earliestEndTime\<close>.
\<close>

definition selectServer :: "jsnum list \<Rightarrow> nat \<Rightarrow> nat" where
  "selectServer serverEndTimes serverCount =
     fst (fold (\<lambda>s (serverIndex, earliestEndTime).
                  if js_lt (js_get serverEndTimes s) earliestEndTime
                  then (s, js_get serverEndTimes s)
                  else (serverIndex, earliestEndTime))
               [1..<serverCount] (0, js_get serverEndTimes 0))"

text \<open>What one round of the main loop pushes on the eight result arrays.\<close>

record row =
  startTime :: jsnum
  endTime :: jsnum
  waitTime :: jsnum
  turnaroundTime :: jsnum
  responseTime :: jsnum
  server :: nat
  queueLength :: int

text \<open>One round of the main loop: the row it records and the new \<open>serverEndTimes\<close>.\<close>

definition dispatch :: "jsnum list \<Rightarrow> nat \<Rightarrow> real \<Rightarrow> jsnum \<Rightarrow> row \<times> jsnum list" where
  "dispatch serverEndTimes serverCount arrival service =
     (let serverIndex = selectServer serverEndTimes serverCount;
          startTime = js_max (Num arrival) (js_get serverEndTimes serverIndex);
          endTime = js_add startTime service;
          waitTime = js_max (Num 0) (js_sub startTime (Num arrival));
          turnaroundTime = js_sub endTime (Num arrival);
          queuedCustomers =
            length (filter (\<lambda>s. js_gt (js_get serverEndTimes s) (Num arrival)) [0..<serverCount]);
          currentQueueLength = max 0 (int queuedCustomers - int serverCount)
      in (\<lparr>startTime = js_roundTo startTime 2,
           endTime = js_roundTo endTime 2,
           waitTime = js_roundTo waitTime 2,
           turnaroundTime = js_roundTo turnaroundTime 2,
           responseTime = js_roundTo (js_add waitTime service) 2,
           server = serverIndex + 1,
           queueLength = currentQueueLength\<rparr>,
          js_set serverEndTimes serverIndex endTime))"

fun simulate_loop :: "nat \<Rightarrow> real list \<Rightarrow> nat \<Rightarrow> real list \<Rightarrow> jsnum list \<Rightarrow> row list" where
  "simulate_loop serverCount services i [] serverEndTimes = []"
| "simulate_loop serverCount services i (arrival # rest) serverEndTimes =
     (let (r, serverEndTimes') =
            dispatch serverEndTimes serverCount arrival (serviceAt services i)
      in r # simulate_loop serverCount services (Suc i) rest serverEndTimes')"

text \<open>
  \<open>serverEndTimes\<close> is local to \<open>simulateQueue\<close>. The history lists its value at the start
  of every round of the main loop, and after the last round, so that a statement can refer
  to the next-available times that an arrival finds.
\<close>

fun serverEndTimes_loop :: "nat \<Rightarrow> real list \<Rightarrow> nat \<Rightarrow> real list \<Rightarrow> jsnum list \<Rightarrow> jsnum list list" where
  "serverEndTimes_loop serverCount services i [] serverEndTimes = [serverEndTimes]"
| "serverEndTimes_loop serverCount services i (arrival # rest) serverEndTimes =
     (let (r, serverEndTimes') =
            dispatch serverEndTimes serverCount arrival (serviceAt services i)
      in serverEndTimes # serverEndTimes_loop serverCount services (Suc i) rest serverEndTimes')"

definition serverEndTimes_history :: "real list \<Rightarrow> real list \<Rightarrow> nat \<Rightarrow> jsnum list list" where
  "serverEndTimes_history gaps services serverCount =
     serverEndTimes_loop serverCount services 0 (arrivalTimes_of gaps)
       (replicate serverCount (Num 0))"

text \<open>
  The object that \<open>simulateQueue\<close> returns, one list per array. Its last field,
  \<open>totalTime = Math.max(...endTimes)\<close>, is not part of the model.
\<close>

record sim_result =
  interarrivals :: "real list"
  arrivalTimes :: "real list"
  serviceTimes :: "real list"
  startTimes :: "jsnum list"
  endTimes :: "jsnum list"
  waitTimes :: "jsnum list"
  turnaroundTimes :: "jsnum list"
  responseTimes :: "jsnum list"
  servers :: "nat list"
  queueLengths :: "int list"
  totalCustomers :: nat

text \<open>\<open>simulateQueue(interarrivals, serviceTimes, serverCount)\<close>, the same text in both files.\<close>

definition simulateQueue :: "real list \<Rightarrow> real list \<Rightarrow> nat \<Rightarrow> sim_result" where
  "simulateQueue gaps services serverCount =
     (let arrivals = arrivalTimes_of gaps;
          serverEndTimes = replicate serverCount (Num 0);
          rows = simulate_loop serverCount services 0 arrivals serverEndTimes
      in \<lparr>interarrivals = gaps,
          arrivalTimes = arrivals,
          serviceTimes = services,
          startTimes = map startTime rows,
          endTimes = map endTime rows,
          waitTimes = map waitTime rows,
          turnaroundTimes = map turnaroundTime rows,
          responseTimes = map responseTime rows,
          servers = map server rows,
          queueLengths = map queueLength rows,
          totalCustomers = length arrivals\<rparr>)"

text \<open>
  The recursive equations of the two loops are unfolded by hand in the proofs below.
\<close>

declare cpCalc_loop.simps [simp del]
declare generate_loop.simps [simp del]

text \<open>
  The invariant of the loop of \<open>cpCalc\<close> while every value stays finite: both arrays have
  \<open>count\<close> elements, entry \<open>k\<close> holds the cumulative probabilities below \<open>k\<close> and up to \<open>k\<close>,
  and the loop test held at every entry.
\<close>

definition table_ok :: "real \<Rightarrow> fnum list \<Rightarrow> fnum list \<Rightarrow> bool" where
  "table_ok m a l \<longleftrightarrow>
     length l = length a
     \<and> (\<forall>k<length a. l ! k = Fin (poisson_below m k)
                      \<and> a ! k = Fin (poisson_below m (Suc k))
                      \<and> poisson_below m k < 9999 / 10000)"

section \<open>Definitions for the statements and proofs about the simulation\<close>


text \<open>
  For a run in which no \<open>NaN\<close> arises (at least one server, a service time for every
  customer), the main loop is a function on numbers: \<open>schedule\<close> is \<open>simulate_loop\<close> with
  \<open>serverEndTimes\<close> a list of reals, and a \<open>job\<close> holds the server index and the times of
  one customer before rounding. Lemma \<open>simulate_loop_schedule\<close> below proves that the rows of
  \<open>simulate_loop\<close> are the rounded jobs of \<open>schedule\<close>.
\<close>

record job =
  job_server :: nat
  job_arrival :: real
  job_start :: real
  job_service :: real

definition job_row :: "job \<Rightarrow> row" where
  "job_row j =
     \<lparr>startTime = Num (roundTo (job_start j) 2),
      endTime = Num (roundTo (job_start j + job_service j) 2),
      waitTime = Num (roundTo (max 0 (job_start j - job_arrival j)) 2),
      turnaroundTime = Num (roundTo (job_start j + job_service j - job_arrival j) 2),
      responseTime = Num (roundTo (max 0 (job_start j - job_arrival j) + job_service j) 2),
      server = job_server j + 1,
      queueLength = 0\<rparr>"

fun schedule :: "real list \<Rightarrow> (real \<times> real) list \<Rightarrow> job list" where
  "schedule es [] = []"
| "schedule es ((a, sv) # rest) =
     (let k = selectServer (map Num es) (length es);
          s = max a (es ! k)
      in \<lparr>job_server = k, job_arrival = a, job_start = s, job_service = sv\<rparr>
           # schedule (es[k := s + sv]) rest)"

text \<open>The next-available times before each job of \<open>schedule\<close>, and after the last.\<close>

fun schedule_states :: "real list \<Rightarrow> (real \<times> real) list \<Rightarrow> real list list" where
  "schedule_states es [] = [es]"
| "schedule_states es ((a, sv) # rest) =
     (let k = selectServer (map Num es) (length es);
          s = max a (es ! k)
      in es # schedule_states (es[k := s + sv]) rest)"

text \<open>Two jobs on the same server: the first ends before the second starts.\<close>

definition hands_over :: "job \<Rightarrow> job \<Rightarrow> bool" where
  "hands_over j j' \<longleftrightarrow>
     (job_server j = job_server j' \<longrightarrow> job_start j + job_service j \<le> job_start j')"

text \<open>The jobs of \<open>simulateQueue gaps services c\<close>.\<close>

definition jobs :: "real list \<Rightarrow> real list \<Rightarrow> nat \<Rightarrow> job list" where
  "jobs gaps services c = schedule (replicate c 0) (zip (arrivalTimes_of gaps) services)"

text \<open>
  The number of customers in service at time \<open>t\<close>, that is with
  \<open>startTime \<le> t < endTime\<close> in the returned arrays (\<open>js_le\<close> is JavaScript's \<open>\<le>\<close>).
\<close>

fun js_le :: "jsnum \<Rightarrow> jsnum \<Rightarrow> bool" where
  "js_le (Num a) (Num b) = (a \<le> b)"
| "js_le _ _ = False"

definition inService :: "sim_result \<Rightarrow> real \<Rightarrow> nat \<Rightarrow> bool" where
  "inService r t i \<longleftrightarrow> js_le (startTimes r ! i) (Num t) \<and> js_lt (Num t) (endTimes r ! i)"

definition busyAt :: "sim_result \<Rightarrow> real \<Rightarrow> nat" where
  "busyAt r t = length (filter (inService r t) [0..<totalCustomers r])"

section \<open>Properties of the calculators\<close>

lemma fold_mult_upt: "fold (\<lambda>i result. result * real i) [m..<m + k] a = a * (\<Prod>i = m..<m + k. real i)"
proof (induction k arbitrary: a)
  case 0
  then show ?case by simp
next
  case (Suc k)
  have "[m..<m + Suc k] = [m..<m + k] @ [m + k]" by simp
  then show ?case using Suc by (simp add: prod.atLeastLessThan_Suc)
qed

lemma factorial_loop: "fold (\<lambda>i result. result * real i) [2..<Suc n] 1 = fact n" if "2 \<le> n"
proof -
  have k: "Suc n = 2 + (n - 1)" using that by arith
  have "fold (\<lambda>i result. result * real i) [2..<Suc n] 1 = (\<Prod>i = 2..<Suc n. real i)"
    unfolding k using fold_mult_upt [of 2 "n - 1" 1] by simp
  also have "\<dots> = (\<Prod>i = 2..n. real i)"
    by (simp add: atLeastLessThanSuc_atLeastAtMost)
  also have "\<dots> = (\<Prod>i = 1..n. real i)"
  proof -
    have "{1..n} = insert 1 {2..n}" using that by auto
    then show ?thesis by simp
  qed
  also have "\<dots> = fact n" by (simp add: fact_prod)
  finally show ?thesis .
qed

lemma factorial_fact: "factorial n = fact n"
proof (cases "n = 0 \<or> n = 1")
  case True
  then show ?thesis by (auto simp: factorial_def)
next
  case False
  then have "2 \<le> n" by simp
  then show ?thesis using False by (simp add: factorial_def factorial_loop del: upt_Suc)
qed

lemma factorial_mgc_fact: "factorial_mgc n = fact n"
proof (cases "n \<le> 1")
  case True
  then have "n = 0 \<or> n = 1" by auto
  then show ?thesis by (auto simp: factorial_mgc_def)
next
  case False
  then have "2 \<le> n" by simp
  then show ?thesis using False by (simp add: factorial_mgc_def factorial_loop del: upt_Suc)
qed

lemma fold_sum_upt: "fold (\<lambda>n sum. sum + f n) [0..<c] a = a + (\<Sum>n<c. f n)"
  for f :: "nat \<Rightarrow> real"
  by (induction c arbitrary: a) simp_all

lemma calculateMultiServerParams_erlang:
  "p0 (calculateMultiServerParams lambda mu c) = erlang_p0 lambda mu c"
  "lq (calculateMultiServerParams lambda mu c) = erlang_lq lambda mu c"
  by (simp_all add: calculateMultiServerParams_def Let_def fold_sum_upt factorial_fact
      erlang_lq_def erlang_p0_def inverse_eq_divide)

lemma calculateMMcParams_erlang:
  "p0 (calculateMMcParams lambda mu c) = erlang_p0 lambda mu c"
  "lq (calculateMMcParams lambda mu c) = erlang_lq lambda mu c"
  by (simp_all add: calculateMMcParams_def Let_def fold_sum_upt factorial_mgc_fact
      erlang_lq_def erlang_p0_def inverse_eq_divide)

lemma calculateMMcParams_chain:
  "rho (calculateMMcParams lambda mu c) = lambda / (real c * mu)"
  "wq (calculateMMcParams lambda mu c) = lq (calculateMMcParams lambda mu c) / lambda"
  "ws (calculateMMcParams lambda mu c) = wq (calculateMMcParams lambda mu c) + 1 / mu"
  "ls (calculateMMcParams lambda mu c) = lambda * ws (calculateMMcParams lambda mu c)"
  by (simp_all add: calculateMMcParams_def Let_def)

lemma calculateMultiServerParams_chain:
  "rho (calculateMultiServerParams lambda mu c) = lambda / (real c * mu)"
  "wq (calculateMultiServerParams lambda mu c) = lq (calculateMultiServerParams lambda mu c) / lambda"
  "ws (calculateMultiServerParams lambda mu c) = wq (calculateMultiServerParams lambda mu c) + 1 / mu"
  "ls (calculateMultiServerParams lambda mu c) = lambda * ws (calculateMultiServerParams lambda mu c)"
  by (simp_all add: calculateMultiServerParams_def Let_def)

lemma erlang_example: "erlang_p0 1 1 2 = 1 / 3" "erlang_lq 1 1 2 = 1 / 3"
  by (simp_all add: erlang_lq_def erlang_p0_def lessThan_Suc numeral_2_eq_2)

text \<open>
  Claim C7. For \<open>0 < lambda < mu\<close> the M/M/1 calculator returns \<open>rho = lambda / mu\<close>,
  \<open>Lq = rho\<^sup>2 / (1 - rho)\<close>, \<open>Wq = Lq / lambda\<close>, \<open>Ws = Wq + 1 / mu\<close> and \<open>Ls = lambda * Ws\<close>; for a
  mean inter-arrival time of 2 and a mean service time of 1, that is \<open>lambda = 1 / 2\<close> and
  \<open>mu = 1 / 1\<close>, it returns \<open>rho = 0.5\<close>, \<open>Lq = 0.5\<close>, \<open>Wq = 1\<close>, \<open>Ws = 2\<close> and \<open>Ls = 1\<close>.
\<close>

theorem calculateMM1Params_formulas:
  assumes "0 < lambda" and "lambda < mu"
  shows "mm1_rho (calculateMM1Params lambda mu) = lambda / mu
       \<and> mm1_lq (calculateMM1Params lambda mu) = (lambda / mu) ^ 2 / (1 - lambda / mu)
       \<and> mm1_wq (calculateMM1Params lambda mu) = mm1_lq (calculateMM1Params lambda mu) / lambda
       \<and> mm1_ws (calculateMM1Params lambda mu) = mm1_wq (calculateMM1Params lambda mu) + 1 / mu
       \<and> mm1_ls (calculateMM1Params lambda mu) = lambda * mm1_ws (calculateMM1Params lambda mu)
       \<and> calculateMM1Params (1 / 2) (1 / 1)
           = \<lparr>mm1_rho = 0.5, mm1_lq = 0.5, mm1_wq = 1.0, mm1_ws = 2.0, mm1_ls = 1.0\<rparr>"
  by (simp add: calculateMM1Params_def Let_def power2_eq_square)

theorem calculateMM1Params_formulas_witness:
  "(0 :: real) < 1 / 2 \<and> (1 / 2 :: real) < 1
   \<and> mm1_rho (calculateMM1Params (1 / 2) 1) = 1 / 2
   \<and> mm1_lq (calculateMM1Params (1 / 2) 1) = 1 / 2
   \<and> mm1_wq (calculateMM1Params (1 / 2) 1) = 1
   \<and> mm1_ws (calculateMM1Params (1 / 2) 1) = 2
   \<and> mm1_ls (calculateMM1Params (1 / 2) 1) = 1"
proof -
  have h1: "(0 :: real) < 1 / 2" and h2: "(1 / 2 :: real) < 1" by simp_all
  from calculateMM1Params_formulas [OF h1 h2] have
    r: "mm1_rho (calculateMM1Params (1 / 2) 1) = (1 / 2) / 1"
    and l: "mm1_lq (calculateMM1Params (1 / 2) 1) = ((1 / 2) / 1) ^ 2 / (1 - (1 / 2) / 1)"
    and w: "mm1_wq (calculateMM1Params (1 / 2) 1) = mm1_lq (calculateMM1Params (1 / 2) 1) / (1 / 2)"
    and s: "mm1_ws (calculateMM1Params (1 / 2) 1) = mm1_wq (calculateMM1Params (1 / 2) 1) + 1 / 1"
    and t: "mm1_ls (calculateMM1Params (1 / 2) 1) = (1 / 2) * mm1_ws (calculateMM1Params (1 / 2) 1)"
    by blast+
  have l': "mm1_lq (calculateMM1Params (1 / 2) 1) = 1 / 2"
    unfolding l by (simp add: power2_eq_square)
  have w': "mm1_wq (calculateMM1Params (1 / 2) 1) = 1" unfolding w l' by simp
  have s': "mm1_ws (calculateMM1Params (1 / 2) 1) = 2" unfolding s w' by simp
  have t': "mm1_ls (calculateMM1Params (1 / 2) 1) = 1" unfolding t s' by simp
  show ?thesis using h1 h2 r l' w' s' t' by simp
qed

text \<open>
  Claim C6. For \<open>lambda\<close>, \<open>mu\<close> and \<open>c\<close> with \<open>rho = lambda / (c * mu) < 1\<close>, both copies of
  the multi-server calculator (\<open>calculateMultiServerParams\<close> and \<open>calculateMMcParams\<close>)
  return the Erlang-C values: \<open>p0\<close> is the inverse of
  \<open>(\<Sum>n<c. (lambda / mu)\<^sup>n / n!) + (lambda / mu)\<^sup>c / (c! (1 - rho))\<close>,
  \<open>Lq = p0 (lambda / mu)\<^sup>c rho / (c! (1 - rho)\<^sup>2)\<close>, \<open>Wq = Lq / lambda\<close>, \<open>Ws = Wq + 1 / mu\<close>,
  \<open>Ls = lambda * Ws\<close>; for \<open>lambda = 1\<close>, \<open>mu = 1\<close>, \<open>c = 2\<close> they return \<open>p0 = 1 / 3\<close> and
  \<open>Lq = 1 / 3\<close>.
\<close>

theorem erlang_c_formulas:
  assumes "0 < lambda" and "0 < mu" and "1 \<le> c" and "lambda / (real c * mu) < 1"
  shows "(\<forall>r \<in> {calculateMultiServerParams lambda mu c, calculateMMcParams lambda mu c}.
            rho r = lambda / (real c * mu)
          \<and> p0 r = inverse ((\<Sum>n<c. (lambda / mu) ^ n / fact n)
                       + (lambda / mu) ^ c / (fact c * (1 - rho r)))
          \<and> lq r = p0 r * (lambda / mu) ^ c * rho r / (fact c * (1 - rho r) ^ 2)
          \<and> wq r = lq r / lambda
          \<and> ws r = wq r + 1 / mu
          \<and> ls r = lambda * ws r)
       \<and> p0 (calculateMultiServerParams 1 1 2) = 1 / 3
       \<and> lq (calculateMultiServerParams 1 1 2) = 1 / 3
       \<and> p0 (calculateMMcParams 1 1 2) = 1 / 3
       \<and> lq (calculateMMcParams 1 1 2) = 1 / 3"
proof -
  have a: "p0 (calculateMultiServerParams lambda mu c)
             = inverse ((\<Sum>n<c. (lambda / mu) ^ n / fact n)
                 + (lambda / mu) ^ c / (fact c * (1 - rho (calculateMultiServerParams lambda mu c))))"
    by (simp add: calculateMultiServerParams_erlang calculateMultiServerParams_chain erlang_p0_def)
  have b: "lq (calculateMultiServerParams lambda mu c)
             = p0 (calculateMultiServerParams lambda mu c) * (lambda / mu) ^ c
                 * rho (calculateMultiServerParams lambda mu c)
                 / (fact c * (1 - rho (calculateMultiServerParams lambda mu c)) ^ 2)"
    by (simp add: calculateMultiServerParams_erlang calculateMultiServerParams_chain erlang_lq_def)
  have a': "p0 (calculateMMcParams lambda mu c)
             = inverse ((\<Sum>n<c. (lambda / mu) ^ n / fact n)
                 + (lambda / mu) ^ c / (fact c * (1 - rho (calculateMMcParams lambda mu c))))"
    by (simp add: calculateMMcParams_erlang calculateMMcParams_chain erlang_p0_def)
  have b': "lq (calculateMMcParams lambda mu c)
             = p0 (calculateMMcParams lambda mu c) * (lambda / mu) ^ c
                 * rho (calculateMMcParams lambda mu c)
                 / (fact c * (1 - rho (calculateMMcParams lambda mu c)) ^ 2)"
    by (simp add: calculateMMcParams_erlang calculateMMcParams_chain erlang_lq_def)
  have ex: "p0 (calculateMultiServerParams 1 1 2) = 1 / 3"
    "lq (calculateMultiServerParams 1 1 2) = 1 / 3"
    "p0 (calculateMMcParams 1 1 2) = 1 / 3"
    "lq (calculateMMcParams 1 1 2) = 1 / 3"
    using calculateMultiServerParams_erlang [of 1 1 2] calculateMMcParams_erlang [of 1 1 2]
      erlang_example by simp_all
  show ?thesis
    using a b a' b' ex calculateMultiServerParams_chain [of lambda mu c]
      calculateMMcParams_chain [of lambda mu c]
    by simp
qed

theorem erlang_c_formulas_witness:
  "(0 :: real) < 1 \<and> (1 :: nat) \<le> 2 \<and> (1 :: real) / (real (2 :: nat) * 1) < 1
   \<and> rho (calculateMultiServerParams 1 1 2) = 1 / 2
   \<and> p0 (calculateMultiServerParams 1 1 2) = 1 / 3
   \<and> lq (calculateMMcParams 1 1 2) = 1 / 3"
proof -
  have h1: "(0 :: real) < 1" and h3: "(1 :: nat) \<le> 2"
    and h4: "(1 :: real) / (real (2 :: nat) * 1) < 1" by simp_all
  from erlang_c_formulas [OF h1 h1 h3 h4] have
    r: "rho (calculateMultiServerParams 1 1 2) = 1 / (real (2 :: nat) * 1)"
    and p: "p0 (calculateMultiServerParams 1 1 2) = 1 / 3"
    and l: "lq (calculateMMcParams 1 1 2) = 1 / 3"
    by blast+
  have r': "rho (calculateMultiServerParams 1 1 2) = 1 / 2" unfolding r by simp
  show ?thesis using h1 h3 h4 r' p l by simp
qed

text \<open>
  Claim C8. For \<open>lambda\<close>, \<open>meanServiceTime\<close>, \<open>c \<ge> 2\<close> and \<open>shapeK \<ge> 0.1\<close> with \<open>rho < 1\<close>, the
  M/G/c calculator's \<open>Wq\<close> is the M/M/c (Erlang-C) \<open>Wq\<close> for the same \<open>lambda\<close>,
  \<open>mu = 1 / meanServiceTime\<close> and \<open>c\<close>, multiplied by \<open>(1 + Cs\<^sup>2) / 2\<close> with \<open>Cs\<^sup>2 = 1 / shapeK\<close>;
  and \<open>Lq = lambda * Wq\<close>, \<open>Ws = Wq + meanServiceTime\<close>, \<open>Ls = lambda * Ws\<close> are derived from
  that scaled \<open>Wq\<close>.
\<close>

theorem calculateMGCParams_allen_cunneen:
  assumes "0 < lambda" and "0 < serviceMeanTime" and "2 \<le> c" and "1 / 10 \<le> shapeK"
    and "lambda / (real c * (1 / serviceMeanTime)) < 1"
  shows "Cs_squared (calculateMGCParams lambda serviceMeanTime c shapeK) = 1 / shapeK
       \<and> mgc_wq (calculateMGCParams lambda serviceMeanTime c shapeK)
           = wq (calculateMMcParams lambda (1 / serviceMeanTime) c)
               * ((1 + Cs_squared (calculateMGCParams lambda serviceMeanTime c shapeK)) / 2)
       \<and> wq (calculateMMcParams lambda (1 / serviceMeanTime) c)
           = erlang_lq lambda (1 / serviceMeanTime) c / lambda
       \<and> mgc_lq (calculateMGCParams lambda serviceMeanTime c shapeK)
           = lambda * mgc_wq (calculateMGCParams lambda serviceMeanTime c shapeK)
       \<and> mgc_ws (calculateMGCParams lambda serviceMeanTime c shapeK)
           = mgc_wq (calculateMGCParams lambda serviceMeanTime c shapeK) + serviceMeanTime
       \<and> mgc_ls (calculateMGCParams lambda serviceMeanTime c shapeK)
           = lambda * mgc_ws (calculateMGCParams lambda serviceMeanTime c shapeK)"
proof -
  have "wq (calculateMMcParams lambda (1 / serviceMeanTime) c)
          = erlang_lq lambda (1 / serviceMeanTime) c / lambda"
    by (simp only: calculateMMcParams_chain calculateMMcParams_erlang)
  then show ?thesis
    by (simp add: calculateMGCParams_def Let_def)
qed

theorem calculateMGCParams_allen_cunneen_witness:
  "(0 :: real) < 1 \<and> (2 :: nat) \<le> 2 \<and> (1 / 10 :: real) \<le> 2
   \<and> (1 :: real) / (real (2 :: nat) * (1 / 1)) < 1
   \<and> Cs_squared (calculateMGCParams 1 1 2 2) = 1 / 2
   \<and> mgc_wq (calculateMGCParams 1 1 2 2) = 1 / 4
   \<and> mgc_lq (calculateMGCParams 1 1 2 2) = 1 / 4
   \<and> mgc_ws (calculateMGCParams 1 1 2 2) = 5 / 4
   \<and> mgc_ls (calculateMGCParams 1 1 2 2) = 5 / 4"
proof -
  have h1: "(0 :: real) < 1" and h3: "(2 :: nat) \<le> 2" and h4: "(1 / 10 :: real) \<le> 2"
    and h5: "(1 :: real) / (real (2 :: nat) * (1 / 1)) < 1" by simp_all
  from calculateMGCParams_allen_cunneen [OF h1 h1 h3 h4 h5] have
    c: "Cs_squared (calculateMGCParams 1 1 2 2) = 1 / 2"
    and w: "mgc_wq (calculateMGCParams 1 1 2 2)
              = wq (calculateMMcParams 1 (1 / 1) 2) * ((1 + Cs_squared (calculateMGCParams 1 1 2 2)) / 2)"
    and e: "wq (calculateMMcParams 1 (1 / 1) 2) = erlang_lq 1 (1 / 1) 2 / 1"
    and l: "mgc_lq (calculateMGCParams 1 1 2 2) = 1 * mgc_wq (calculateMGCParams 1 1 2 2)"
    and s: "mgc_ws (calculateMGCParams 1 1 2 2) = mgc_wq (calculateMGCParams 1 1 2 2) + 1"
    and t: "mgc_ls (calculateMGCParams 1 1 2 2) = 1 * mgc_ws (calculateMGCParams 1 1 2 2)"
    by blast+
  have e': "wq (calculateMMcParams 1 (1 / 1) 2) = 1 / 3"
    unfolding e using erlang_example by simp
  have w': "mgc_wq (calculateMGCParams 1 1 2 2) = 1 / 4" unfolding w e' c by simp
  have l': "mgc_lq (calculateMGCParams 1 1 2 2) = 1 / 4" unfolding l w' by simp
  have s': "mgc_ws (calculateMGCParams 1 1 2 2) = 5 / 4" unfolding s w' by simp
  have t': "mgc_ls (calculateMGCParams 1 1 2 2) = 5 / 4" unfolding t s' by simp
  show ?thesis using h1 h3 h4 h5 c w' l' s' t' by simp
qed

section \<open>Properties of the arrival sampler\<close>

subsection \<open>The scan and the generation loop\<close>

lemma scanTable_nat: "\<exists>k\<ge>1. scanTable random table j = real k"
proof (induction random table j rule: scanTable.induct)
  case (1 random j)
  show ?case by (rule exI [of _ 1]) simp
next
  case (2 random lower upper rest j)
  show ?case
  proof (cases "f_ge (Fin random) lower \<and> f_lt (Fin random) upper")
    case True
    show ?thesis by (rule exI [of _ "j + 1"]) (use True in simp)
  next
    case False
    then show ?thesis using 2 by auto
  qed
qed

lemma scanTable_default:
  "\<forall>(lower, upper) \<in> set table. \<not> (f_ge (Fin random) lower \<and> f_lt (Fin random) upper)
   \<Longrightarrow> scanTable random table j = 1"
  by (induction random table j rule: scanTable.induct) auto

lemma generate_loop_result:
  assumes "generate_loop rnd table maxTime n ia tot = (ia', tot')"
  shows "\<exists>K. ia' = ia @ map (\<lambda>i. scanTable (rnd (n + i)) table 0) [0..<K]
            \<and> tot' = tot + sum_list (map (\<lambda>i. scanTable (rnd (n + i)) table 0) [0..<K])
            \<and> maxTime \<le> tot'
            \<and> (\<forall>L. K = Suc L \<longrightarrow>
                 tot + sum_list (map (\<lambda>i. scanTable (rnd (n + i)) table 0) [0..<L]) < maxTime)
            \<and> (tot < maxTime \<longrightarrow> 0 < K)"
  using assms
proof (induction rnd table maxTime n ia tot rule: generate_loop.induct)
  case (1 rnd table maxTime n ia tot)
  let ?g = "\<lambda>m i. scanTable (rnd (m + i)) table 0"
  show ?case
  proof (cases "tot < maxTime")
    case False
    with "1.prems" have "ia' = ia" "tot' = tot"
      by (simp_all add: generate_loop.simps)
    with False show ?thesis by (intro exI [of _ 0]) simp
  next
    case True
    define g where "g = scanTable (rnd n) table 0"
    from True "1.prems" have rec: "generate_loop rnd table maxTime (Suc n) (ia @ [g]) (tot + g) = (ia', tot')"
      by (simp add: generate_loop.simps [of rnd table maxTime n] g_def Let_def)
    from "1.IH" [OF True refl g_def rec]
    obtain K where K: "ia' = (ia @ [g]) @ map (?g (Suc n)) [0..<K]"
      "tot' = tot + g + sum_list (map (?g (Suc n)) [0..<K])" "maxTime \<le> tot'"
      "\<forall>L. K = Suc L \<longrightarrow> tot + g + sum_list (map (?g (Suc n)) [0..<L]) < maxTime"
      by blast
    have unroll: "map (?g n) [0..<Suc M] = g # map (?g (Suc n)) [0..<M]" for M
      unfolding map_upt_Suc by (simp add: g_def)
    have last: "tot + sum_list (map (?g n) [0..<L]) < maxTime" if "Suc K = Suc L" for L
    proof (cases L)
      case 0
      then show ?thesis using True by simp
    next
      case (Suc L')
      with that K(4) have "tot + g + sum_list (map (?g (Suc n)) [0..<L']) < maxTime" by simp
      then show ?thesis unfolding Suc unroll by (simp add: add.assoc)
    qed
    have "ia' = ia @ map (?g n) [0..<Suc K]" unfolding unroll using K(1) by simp
    moreover have "tot' = tot + sum_list (map (?g n) [0..<Suc K])"
      unfolding unroll using K(2) by (simp add: add.assoc)
    ultimately show ?thesis
      using K(3) last by (intro exI [of _ "Suc K"]) blast
  qed
qed

lemma sum_list_butlast_le:
  fixes xs :: "real list"
  assumes "\<forall>x \<in> set xs. 0 \<le> x"
  shows "sum_list (butlast xs) \<le> sum_list xs"
proof (cases "xs = []")
  case True
  then show ?thesis by simp
next
  case False
  then have "xs = butlast xs @ [last xs]" by simp
  then have "sum_list xs = sum_list (butlast xs) + last xs"
    by (metis sum_list.append sum_list.Cons sum_list.Nil add.right_neutral)
  moreover have "0 \<le> last xs" using False assms by simp
  ultimately show ?thesis by simp
qed

lemma sampledGap_nat: "\<exists>k\<ge>1. sampledGap mean rnd n = real k"
  unfolding sampledGap_def by (rule scanTable_nat)

text \<open>
  The result is the seed 0 followed by the first \<open>L\<close> sampled gaps, where \<open>L\<close> is the largest
  number of gaps whose sum stays within the horizon.
\<close>

lemma generateInterarrivals_prefix:
  assumes "0 < maxTime"
  shows "\<exists>L. generateInterarrivals mean maxTime rnd = 0 # map (sampledGap mean rnd) [0..<L]
            \<and> sum_list (map (sampledGap mean rnd) [0..<L]) \<le> maxTime
            \<and> maxTime < sum_list (map (sampledGap mean rnd) [0..<Suc L])"
proof -
  let ?g = "sampledGap mean rnd"
  obtain cparray cplookuparray where cp: "cpCalc mean = (cparray, cplookuparray)"
    by (cases "cpCalc mean")
  have tab: "lookupTable mean = zip cplookuparray cparray" by (simp add: lookupTable_def cp)
  have g: "(\<lambda>i. scanTable (rnd (0 + i)) (zip cplookuparray cparray) 0) = ?g"
    unfolding sampledGap_def tab by (rule ext) simp
  obtain ia' tot' where gl: "generate_loop rnd (zip cplookuparray cparray) maxTime 0 [0] 0 = (ia', tot')"
    by (cases "generate_loop rnd (zip cplookuparray cparray) maxTime 0 [0] 0")
  from generate_loop_result [OF gl] assms
  obtain K where K: "ia' = [0] @ map ?g [0..<K]"
    "tot' = 0 + sum_list (map ?g [0..<K])" "maxTime \<le> tot'"
    "\<forall>L. K = Suc L \<longrightarrow> 0 + sum_list (map ?g [0..<L]) < maxTime" "0 < K"
    unfolding g by blast
  have res: "generateInterarrivals mean maxTime rnd = (if tot' > maxTime then butlast ia' else ia')"
    by (simp add: generateInterarrivals_def cp gl)
  have pos: "0 < ?g n" for n
    using sampledGap_nat [of mean rnd n] by auto
  show ?thesis
  proof (cases "tot' > maxTime")
    case True
    obtain L where L: "K = Suc L" using K(5) by (cases K) simp_all
    have "butlast ia' = 0 # map ?g [0..<L]"
      unfolding K(1) L by (simp add: butlast_append)
    then have "generateInterarrivals mean maxTime rnd = 0 # map ?g [0..<L]"
      using res True by simp
    moreover have "sum_list (map ?g [0..<L]) \<le> maxTime" using K(4) L by simp
    moreover have "maxTime < sum_list (map ?g [0..<Suc L])" using True K(2) L by simp
    ultimately show ?thesis by blast
  next
    case False
    then have eq: "sum_list (map ?g [0..<K]) = maxTime" using K(2,3) by simp
    have "generateInterarrivals mean maxTime rnd = 0 # map ?g [0..<K]"
      using res False K(1) by simp
    moreover have "maxTime < sum_list (map ?g [0..<Suc K])"
      using eq pos [of K] by simp
    ultimately show ?thesis using eq by (intro exI [of _ K]) simp
  qed
qed

lemma generateInterarrivals_shape:
  assumes "0 < maxTime"
  shows "\<exists>gs. generateInterarrivals mean maxTime rnd = 0 # gs
            \<and> (\<forall>g \<in> set gs. \<exists>k\<ge>1. g = real k)
            \<and> sum_list gs \<le> maxTime"
proof -
  from generateInterarrivals_prefix [OF assms, of mean rnd]
  obtain L where L: "generateInterarrivals mean maxTime rnd = 0 # map (sampledGap mean rnd) [0..<L]"
    "sum_list (map (sampledGap mean rnd) [0..<L]) \<le> maxTime"
    by blast
  have "\<forall>g \<in> set (map (sampledGap mean rnd) [0..<L]). \<exists>k\<ge>1. g = real k"
    using sampledGap_nat [of mean rnd] by auto
  with L show ?thesis by blast
qed

lemma generateInterarrivals_short:
  assumes "0 < maxTime" and "maxTime < 1"
  shows "generateInterarrivals mean maxTime rnd = [0]"
proof -
  from generateInterarrivals_shape [OF assms(1)]
  obtain gs where gs: "generateInterarrivals mean maxTime rnd = 0 # gs"
    "\<forall>g \<in> set gs. \<exists>k\<ge>1. g = real k" "sum_list gs \<le> maxTime"
    by blast
  have "gs = []"
  proof (cases gs)
    case Nil
    then show ?thesis .
  next
    case (Cons g rest)
    then obtain k where k: "k \<ge> 1" "g = real k" using gs(2) by auto
    have "0 \<le> sum_list rest"
      using gs(2) Cons by (intro sum_list_nonneg) auto
    then have "1 \<le> sum_list gs" using k Cons by simp
    with gs(3) assms(2) show ?thesis by simp
  qed
  with gs(1) show ?thesis by simp
qed

subsection \<open>The Poisson law\<close>

lemma exp_partial_sum_le:
  fixes m :: real
  assumes "0 \<le> m"
  shows "(\<Sum>i<n. m ^ i / fact i) \<le> exp m"
proof -
  have s: "summable (\<lambda>i. m ^ i /\<^sub>R fact i)" by (rule summable_exp_generic)
  have "(\<Sum>i<n. m ^ i /\<^sub>R fact i) \<le> (\<Sum>i. m ^ i /\<^sub>R fact i)"
    using s by (rule sum_le_suminf) (use assms in auto)
  then show ?thesis by (simp add: exp_def divide_inverse mult.commute)
qed

lemma exp_tail:
  fixes x :: real
  assumes "0 \<le> x"
  shows "exp x * (1 - x ^ n / fact n) \<le> (\<Sum>i<n. x ^ i / fact i)"
proof -
  from Maclaurin_exp_le [of x n] obtain t where
    t: "\<bar>t\<bar> \<le> \<bar>x\<bar>" and e: "exp x = (\<Sum>m<n. x ^ m / fact m) + exp t / fact n * x ^ n"
    by blast
  have "t \<le> x" using t assms by simp
  then have "exp t \<le> exp x" by simp
  then have "exp t / fact n * x ^ n \<le> exp x / fact n * x ^ n"
    using assms by (intro mult_right_mono divide_right_mono) simp_all
  with e have "exp x \<le> (\<Sum>m<n. x ^ m / fact m) + exp x / fact n * x ^ n" by simp
  then show ?thesis by (simp add: algebra_simps)
qed

lemma poisson_below_sum: "poisson_below m n = exp (- m) * (\<Sum>i<n. m ^ i / fact i)"
  by (simp add: poisson_below_def poisson_pmf_def sum_distrib_left)

lemma poisson_below_le_1:
  assumes "0 \<le> m"
  shows "poisson_below m n \<le> 1"
proof -
  have "poisson_below m n \<le> exp (- m) * exp m"
    unfolding poisson_below_sum
    using exp_partial_sum_le [OF assms, of n] by (intro mult_left_mono) simp_all
  also have "\<dots> = 1" by (simp add: exp_minus)
  finally show ?thesis .
qed

lemma poisson_pmf_nonneg: "0 \<le> m \<Longrightarrow> 0 \<le> poisson_pmf m k"
  by (simp add: poisson_pmf_def)

lemma poisson_below_nonneg: "0 \<le> m \<Longrightarrow> 0 \<le> poisson_below m n"
  unfolding poisson_below_def by (intro sum_nonneg poisson_pmf_nonneg)

lemma poisson_below_Suc: "poisson_below m (Suc k) = poisson_below m k + poisson_pmf m k"
  by (simp add: poisson_below_def)

lemma poisson_below_mono:
  assumes "0 \<le> m" and "k \<le> n"
  shows "poisson_below m k \<le> poisson_below m n"
  unfolding poisson_below_def
  using assms by (intro sum_mono2) (auto simp: poisson_pmf_nonneg)

lemma poisson_below_ge:
  assumes "0 \<le> m"
  shows "1 - m ^ n / fact n \<le> poisson_below m n"
proof -
  have "exp (- m) * (exp m * (1 - m ^ n / fact n)) \<le> exp (- m) * (\<Sum>i<n. m ^ i / fact i)"
    using exp_tail [OF assms, of n] by (intro mult_left_mono) simp_all
  moreover have "exp (- m) * (exp m * (1 - m ^ n / fact n)) = 1 - m ^ n / fact n"
    by (simp add: exp_minus)
  ultimately show ?thesis by (simp add: poisson_below_sum)
qed

subsection \<open>The table for means up to 60\<close>

text \<open>
  For a mean of at most 60 the loop of \<open>cpCalc\<close> stops before \<open>count\<close> reaches 170, and up to
  there \<open>Math.exp\<close>, \<open>Math.pow\<close> and \<open>factorial\<close> stay finite.
\<close>

lemma fact_170: "(60 :: real) ^ 170 * 10000 \<le> fact 170"
proof -
  have "(60 :: nat) ^ 170 * 10000 \<le> fact 170" by (simp add: fact_numeral)
  then have "real ((60 :: nat) ^ 170 * 10000) \<le> real (fact 170)" by (rule of_nat_mono)
  then show ?thesis by simp
qed

lemma count_bound:
  assumes "0 \<le> m" and "m \<le> 60" and "poisson_below m k < 9999 / 10000"
  shows "k < 170"
proof (rule ccontr)
  assume "\<not> k < 170"
  then have k: "170 \<le> k" by simp
  have "m ^ 170 \<le> 60 ^ 170" using assms(2,1) by (rule power_mono)
  then have "m ^ 170 / fact 170 \<le> 60 ^ 170 / fact 170" by (rule divide_right_mono) simp
  also have "\<dots> \<le> 1 / 10000" using fact_170 by (simp add: field_simps)
  finally have "1 - 1 / 10000 \<le> 1 - m ^ 170 / fact 170" by simp
  also have "\<dots> \<le> poisson_below m 170" by (rule poisson_below_ge [OF assms(1)])
  also have "\<dots> \<le> poisson_below m k" by (rule poisson_below_mono [OF assms(1) k])
  finally show False using assms(3) by simp
qed

lemma overflow_Fin: "\<bar>x\<bar> \<le> MAX_VALUE \<Longrightarrow> overflow x = Fin x"
  by (auto simp: overflow_def)

lemma MAX_VALUE_ge_1: "1 \<le> MAX_VALUE"
  by (simp add: MAX_VALUE_def)

lemma pow_in_range:
  assumes "0 \<le> m" and "m \<le> 60" and "k < 170"
  shows "0 \<le> m ^ k" and "m ^ k \<le> MAX_VALUE"
proof -
  show "0 \<le> m ^ k" using assms(1) by simp
  have "m ^ k \<le> (max 1 m) ^ k" using assms(1) by (intro power_mono) simp_all
  also have "\<dots> \<le> (max 1 m) ^ 169" using assms(3) by (intro power_increasing) simp_all
  also have "\<dots> \<le> 60 ^ 169" using assms(2) by (intro power_mono) simp_all
  also have "\<dots> \<le> MAX_VALUE" by (simp add: MAX_VALUE_def)
  finally show "m ^ k \<le> MAX_VALUE" .
qed

lemma fact_in_range:
  assumes "k < 170"
  shows "(fact k :: real) \<le> MAX_VALUE"
proof -
  have "(fact k :: real) \<le> fact 169" using assms by (intro fact_mono) simp
  also have "\<dots> \<le> MAX_VALUE" by (simp add: MAX_VALUE_def fact_numeral)
  finally show ?thesis .
qed

lemma Math_exp_in_range:
  assumes "0 \<le> m" and "m \<le> 60"
  shows "Math_exp (- m) = Fin (exp (- m))"
proof -
  have "exp m \<le> exp 60" using assms(2) by simp
  also have "exp (60 :: real) = exp 1 ^ 60" using exp_of_nat_mult [of 60 "1 :: real"] by simp
  also have "\<dots> \<le> 3 ^ 60" using exp_le by (intro power_mono) simp_all
  also have "\<dots> < 2 ^ 1075" by simp
  finally have "exp m < 2 ^ 1075" .
  then have "1 / 2 ^ 1075 < 1 / exp m" by (intro divide_strict_left_mono) simp_all
  then have low: "MIN_VALUE / 2 < exp (- m)" by (simp add: MIN_VALUE_def exp_minus field_simps)
  have e1: "exp (- m) \<le> 1" using assms(1) by simp
  have "exp (- m) \<le> MAX_VALUE" by (rule order_trans [OF e1 MAX_VALUE_ge_1])
  then have "\<bar>exp (- m)\<bar> \<le> MAX_VALUE" by (simp add: abs_of_pos)
  then show ?thesis using low by (simp add: Math_exp_def overflow_Fin)
qed

lemma calc_in_range:
  assumes "0 \<le> m" and "m \<le> 60" and "k < 170"
  shows "f_div (f_mul (Math_exp (- m)) (Math_pow m k)) (overflow (factorial k))
           = Fin (poisson_pmf m k)"
proof -
  note p = pow_in_range [OF assms]
  have e: "Math_exp (- m) = Fin (exp (- m))" by (rule Math_exp_in_range [OF assms(1,2)])
  have pw: "Math_pow m k = Fin (m ^ k)" using p by (simp add: Math_pow_def overflow_Fin)
  have f: "overflow (factorial k) = Fin (fact k)"
    using fact_in_range [OF assms(3)] by (simp add: factorial_fact overflow_Fin)
  have e1: "exp (- m) \<le> 1" using assms(1) by simp
  have "exp (- m) * m ^ k \<le> 1 * m ^ k" using e1 p(1) by (rule mult_right_mono)
  then have prod: "0 \<le> exp (- m) * m ^ k" "exp (- m) * m ^ k \<le> MAX_VALUE"
    using p by simp_all
  have f1: "(1 :: real) \<le> fact k" by (rule fact_ge_1)
  have "exp (- m) * m ^ k / fact k \<le> exp (- m) * m ^ k / 1"
    using prod(1) f1 by (intro divide_left_mono) simp_all
  then have quot: "0 \<le> exp (- m) * m ^ k / fact k" "exp (- m) * m ^ k / fact k \<le> MAX_VALUE"
    using prod by simp_all
  have "f_mul (Math_exp (- m)) (Math_pow m k) = Fin (exp (- m) * m ^ k)"
    using prod by (simp add: e pw overflow_Fin)
  then show ?thesis
    using quot by (simp add: f overflow_Fin poisson_pmf_def)
qed

lemma step_in_range:
  assumes "0 \<le> m" and "m \<le> 60" and "k < 170"
  shows "f_add (Fin (poisson_below m k))
               (f_div (f_mul (Math_exp (- m)) (Math_pow m k)) (overflow (factorial k)))
           = Fin (poisson_below m (Suc k))"
    and "Math_min (Fin (poisson_below m (Suc k))) (Fin 1) = Fin (poisson_below m (Suc k))"
proof -
  have r: "0 \<le> poisson_below m (Suc k)" "poisson_below m (Suc k) \<le> 1"
    using poisson_below_nonneg [OF assms(1)] poisson_below_le_1 [OF assms(1)] by simp_all
  then have "\<bar>poisson_below m k + poisson_pmf m k\<bar> \<le> MAX_VALUE"
    using MAX_VALUE_ge_1 by (simp add: poisson_below_Suc)
  then show "f_add (Fin (poisson_below m k))
               (f_div (f_mul (Math_exp (- m)) (Math_pow m k)) (overflow (factorial k)))
           = Fin (poisson_below m (Suc k))"
    by (simp add: calc_in_range [OF assms] overflow_Fin poisson_below_Suc)
  show "Math_min (Fin (poisson_below m (Suc k))) (Fin 1) = Fin (poisson_below m (Suc k))"
    using r(2) by simp
qed

lemma table_ok_snoc:
  assumes "table_ok m a l" and "poisson_below m (length a) < 9999 / 10000"
  shows "table_ok m (a @ [Fin (poisson_below m (Suc (length a)))]) (l @ [Fin (poisson_below m (length a))])"
  using assms unfolding table_ok_def
  by (auto simp: nth_append less_Suc_eq)

lemma cpCalc_loop_result:
  assumes "0 \<le> m" and "m \<le> 60"
    and "table_ok m cpa cpl" and "count = length cpa" and "cp = Fin (poisson_below m count)"
    and "cpCalc_loop m cp count cpa cpl = (a, l)"
  shows "table_ok m a l \<and> 9999 / 10000 \<le> poisson_below m (length a)"
  using assms
proof (induction m cp count cpa cpl rule: cpCalc_loop.induct)
  case (1 m cp count cpa cpl)
  note m = "1.prems"(1,2)
  show ?case
  proof (cases "poisson_below m count < 9999 / 10000")
    case False
    then have "cpCalc_loop m cp count cpa cpl = (cpa, cpl)"
      by (subst cpCalc_loop.simps) (simp add: "1.prems"(5))
    with "1.prems"(6) have "a = cpa" "l = cpl" by simp_all
    then show ?thesis using False "1.prems"(3,4) by simp
  next
    case True
    from count_bound [OF m True] have c170: "count < 170" .
    then have c200: "count < 200" by simp
    have test: "f_lt cp (Fin (9999 / 10000)) \<and> count < 200"
      using True c200 by (simp add: "1.prems"(5))
    define calc where "calc = f_div (f_mul (Math_exp (- m)) (Math_pow m count))
                                    (overflow (factorial count))"
    define cp' where "cp' = f_add cp calc"
    have cp': "cp' = Fin (poisson_below m (Suc count))"
      unfolding cp'_def calc_def "1.prems"(5) by (rule step_in_range(1) [OF m c170])
    have mn: "Math_min cp' (Fin 1) = Fin (poisson_below m (Suc count))"
      unfolding cp' by (rule step_in_range(2) [OF m c170])
    from test "1.prems"(6)
    have rec: "cpCalc_loop m cp' (Suc count) (cpa @ [Math_min cp' (Fin 1)]) (cpl @ [cp]) = (a, l)"
      by (simp add: cpCalc_loop.simps [of m cp count] Let_def cp'_def calc_def)
    have ok: "table_ok m (cpa @ [Math_min cp' (Fin 1)]) (cpl @ [cp])"
      unfolding mn "1.prems"(4,5)
      by (rule table_ok_snoc [OF "1.prems"(3)]) (use True "1.prems"(4) in simp)
    have len: "Suc count = length (cpa @ [Math_min cp' (Fin 1)])" using "1.prems"(4) by simp
    show ?thesis
      by (rule "1.IH" [OF test calc_def refl cp'_def m ok len cp' rec])
  qed
qed

lemma cpCalc_table:
  assumes "0 \<le> m" and "m \<le> 60" and "cpCalc m = (a, l)"
  shows "table_ok m a l" and "9999 / 10000 \<le> poisson_below m (length a)"
    and "1 \<le> length a" and "length a \<le> 170"
proof -
  have ok0: "table_ok m [] []" by (simp add: table_ok_def)
  have p0: "Fin 0 = Fin (poisson_below m 0)" by (simp add: poisson_below_def)
  from assms(3) have run: "cpCalc_loop m (Fin 0) 0 [] [] = (a, l)" by (simp add: cpCalc_def)
  from cpCalc_loop_result [OF assms(1,2) ok0 _ p0 run]
  show r: "table_ok m a l" and s: "9999 / 10000 \<le> poisson_below m (length a)"
    by simp_all
  have "length a \<noteq> 0"
  proof
    assume "length a = 0"
    with s show False by (simp add: poisson_below_def)
  qed
  then show "1 \<le> length a" by (cases a) simp_all
  show "length a \<le> 170"
  proof (cases a rule: rev_cases)
    case Nil
    then show ?thesis by simp
  next
    case (snoc a' x)
    then have "length a' < length a" by simp
    with r have "poisson_below m (length a') < 9999 / 10000" by (simp add: table_ok_def)
    from count_bound [OF assms(1,2) this] snoc show ?thesis by simp
  qed
qed

lemma cpCalc_entries:
  assumes "0 \<le> m" and "m \<le> 60" and "k < length (fst (cpCalc m))"
  shows "snd (cpCalc m) ! k = Fin (poisson_below m k)"
    and "fst (cpCalc m) ! k = Fin (poisson_below m (Suc k))"
    and "poisson_below m k < 9999 / 10000"
proof -
  obtain a l where al: "cpCalc m = (a, l)" by (cases "cpCalc m")
  from cpCalc_table(1) [OF assms(1,2) al] have ok: "table_ok m a l" .
  from assms(3) al have k: "k < length a" by simp
  from ok k show "snd (cpCalc m) ! k = Fin (poisson_below m k)"
    "fst (cpCalc m) ! k = Fin (poisson_below m (Suc k))"
    "poisson_below m k < 9999 / 10000"
    by (simp_all add: table_ok_def al)
qed

lemma cpCalc_length:
  assumes "0 \<le> m" and "m \<le> 60"
  shows "length (snd (cpCalc m)) = length (fst (cpCalc m))"
    and "1 \<le> length (fst (cpCalc m))"
    and "length (fst (cpCalc m)) \<le> 170"
    and "9999 / 10000 \<le> poisson_below m (length (fst (cpCalc m)))"
proof -
  obtain a l where al: "cpCalc m = (a, l)" by (cases "cpCalc m")
  from cpCalc_table [OF assms al]
  show "length (snd (cpCalc m)) = length (fst (cpCalc m))"
    and "1 \<le> length (fst (cpCalc m))"
    and "length (fst (cpCalc m)) \<le> 170"
    and "9999 / 10000 \<le> poisson_below m (length (fst (cpCalc m)))"
    by (simp_all add: al table_ok_def)
qed




text \<open>
  Beyond the range of doubles the table is no Poisson table. For the mean \<open>2 ^ 1000\<close>,
  \<open>Math.exp(-mean)\<close> is 0 and \<open>Math.pow(mean, 2)\<close> is \<open>Infinity\<close>, so the third round computes
  \<open>0 * Infinity\<close> and the table ends with \<open>NaN\<close>.
\<close>

lemma Math_exp_underflow: "Math_exp (- (2 ^ 1000)) = Fin 0"
proof -
  let ?M = "2 ^ 1000 :: real"
  have "(\<Sum>i<3. ?M ^ i / fact i) \<le> exp ?M" by (rule exp_partial_sum_le) simp
  moreover have "(2 :: real) ^ 1076 \<le> (\<Sum>i<3. ?M ^ i / fact i)"
    by (simp add: numeral_3_eq_3 lessThan_Suc)
  ultimately have "(2 :: real) ^ 1076 \<le> exp ?M" by (rule order_trans [rotated])
  then have "1 / exp ?M \<le> 1 / 2 ^ 1076" by (intro divide_left_mono) simp_all
  then have "exp (- ?M) \<le> MIN_VALUE / 2" by (simp add: exp_minus MIN_VALUE_def field_simps)
  then show ?thesis by (simp add: Math_exp_def)
qed

lemma cpCalc_overflow_example:
  "cpCalc (2 ^ 1000) = ([Fin 0, Fin 0, Nan], [Fin 0, Fin 0, Fin 0])"
proof -
  define M :: real where "M = 2 ^ 1000"
  have e: "Math_exp (- M) = Fin 0" unfolding M_def by (rule Math_exp_underflow)
  have p0: "Math_pow M 0 = Fin 1"
    and p1: "Math_pow M (Suc 0) = Fin M"
    and p2: "Math_pow M (Suc (Suc 0)) = PInf"
    by (simp_all add: Math_pow_def overflow_def MAX_VALUE_def M_def)
  have f: "overflow (factorial 0) = Fin 1" "overflow (factorial (Suc 0)) = Fin 1"
    "overflow (factorial (Suc (Suc 0))) = Fin 2"
    by (simp_all add: factorial_def overflow_def MAX_VALUE_def)
  have z: "overflow 0 = Fin 0" by (simp add: overflow_def MAX_VALUE_def)
  have r3: "cpCalc_loop M Nan (Suc (Suc (Suc 0))) [Fin 0, Fin 0, Nan] [Fin 0, Fin 0, Fin 0]
              = ([Fin 0, Fin 0, Nan], [Fin 0, Fin 0, Fin 0])"
    by (subst cpCalc_loop.simps) simp
  have r2: "cpCalc_loop M (Fin 0) (Suc (Suc 0)) [Fin 0, Fin 0] [Fin 0, Fin 0]
              = ([Fin 0, Fin 0, Nan], [Fin 0, Fin 0, Fin 0])"
    by (subst cpCalc_loop.simps) (simp add: e p2 f r3 Let_def)
  have r1: "cpCalc_loop M (Fin 0) (Suc 0) [Fin 0] [Fin 0]
              = ([Fin 0, Fin 0, Nan], [Fin 0, Fin 0, Fin 0])"
    by (subst cpCalc_loop.simps) (simp add: e p1 f z r2 Let_def)
  have "cpCalc M = ([Fin 0, Fin 0, Nan], [Fin 0, Fin 0, Fin 0])"
    unfolding cpCalc_def
    by (subst cpCalc_loop.simps) (simp add: e p0 f z r1 Let_def)
  then show ?thesis unfolding M_def .
qed

subsection \<open>The generated trace\<close>

text \<open>
  Claim C10. For every positive mean and positive horizon, and whatever \<open>Math.random\<close>
  returns, the sequence returned by \<open>generateInterarrivals\<close> is 0 followed by the first \<open>L\<close>
  sampled gaps, in the order of the draws. Every sampled gap is an integer \<open>\<ge> 1\<close>. The sum of
  the sequence (and so the sum of all but its last element) is at most the horizon, and \<open>L\<close> is
  the largest such number: with the next sampled gap the sum exceeds the horizon, so only
  the overshooting gap has been removed. A draw \<open>u\<close> that lies in no interval of the table
  gives the gap 1.
\<close>

theorem generateInterarrivals_trace:
  assumes "0 < mean" and "0 < maxTime"
  shows "\<exists>L. generateInterarrivals mean maxTime rnd = 0 # map (sampledGap mean rnd) [0..<L]
            \<and> (\<forall>n. \<exists>k\<ge>1. sampledGap mean rnd n = real k)
            \<and> sum_list (generateInterarrivals mean maxTime rnd) \<le> maxTime
            \<and> maxTime < sum_list (generateInterarrivals mean maxTime rnd) + sampledGap mean rnd L
            \<and> sum_list (butlast (generateInterarrivals mean maxTime rnd)) \<le> maxTime
            \<and> hd (generateInterarrivals mean maxTime rnd) = 0
            \<and> (\<forall>g \<in> set (tl (generateInterarrivals mean maxTime rnd)). \<exists>k\<ge>1. g = real k)
            \<and> ((\<forall>(lower, upper) \<in> set (lookupTable mean).
                   \<not> (f_ge (Fin u) lower \<and> f_lt (Fin u) upper))
                 \<longrightarrow> scanTable u (lookupTable mean) 0 = 1)"
proof -
  let ?g = "sampledGap mean rnd"
  from generateInterarrivals_prefix [OF assms(2), of mean rnd]
  obtain L where L: "generateInterarrivals mean maxTime rnd = 0 # map ?g [0..<L]"
    "sum_list (map ?g [0..<L]) \<le> maxTime"
    "maxTime < sum_list (map ?g [0..<Suc L])"
    by blast
  have nat: "\<forall>n. \<exists>k\<ge>1. ?g n = real k" using sampledGap_nat by blast
  have gaps: "\<forall>g \<in> set (map ?g [0..<L]). \<exists>k\<ge>1. g = real k" using nat by auto
  have nonneg: "\<forall>x \<in> set (0 # map ?g [0..<L]). 0 \<le> x" using gaps by auto
  have "sum_list (butlast (0 # map ?g [0..<L])) \<le> sum_list (0 # map ?g [0..<L])"
    using nonneg by (rule sum_list_butlast_le)
  then have bl: "sum_list (butlast (0 # map ?g [0..<L])) \<le> maxTime" using L(2) by simp
  have nxt: "maxTime < sum_list (0 # map ?g [0..<L]) + ?g L" using L(3) by simp
  have dflt: "(\<forall>(lower, upper) \<in> set (lookupTable mean).
                   \<not> (f_ge (Fin u) lower \<and> f_lt (Fin u) upper))
                 \<longrightarrow> scanTable u (lookupTable mean) 0 = 1"
    using scanTable_default by blast
  show ?thesis
    unfolding L(1)
    using nat L(2) nxt bl gaps dflt by (intro exI [of _ L]) simp
qed

text \<open>
  For the mean 1, the draw \<open>1 / 2\<close> lies in the second interval of the table,
  \<open>[exp (- 1), 2 * exp (- 1))\<close>, so every sampled gap is 2.
\<close>

lemma sampledGap_half: "sampledGap 1 (\<lambda>n. 1 / 2) n = 2"
proof -
  have m: "(0 :: real) \<le> 1" "(1 :: real) \<le> 60" by simp_all
  let ?a = "fst (cpCalc 1)" and ?l = "snd (cpCalc 1)"
  have e1: "exp (- 1 :: real) \<le> 1 / 2"
  proof -
    have "(2 :: real) \<le> exp 1" using exp_ge_add_one_self [of "1 :: real"] by simp
    then have "1 / exp (1 :: real) \<le> 1 / 2" by (intro divide_left_mono) simp_all
    then show ?thesis by (simp add: exp_minus field_simps)
  qed
  have e2: "1 / 2 < 2 * exp (- 1 :: real)"
  proof -
    have "exp (1 :: real) < 4" using exp_le by simp
    then have "1 / 4 < 1 / exp (1 :: real)" by (intro divide_strict_left_mono) simp_all
    then show ?thesis by (simp add: exp_minus field_simps)
  qed
  have p1: "poisson_below 1 (Suc 0) = exp (- 1)"
    and p2: "poisson_below 1 (Suc (Suc 0)) = 2 * exp (- 1)"
    by (simp_all add: poisson_below_def poisson_pmf_def)
  have len: "length ?l = length ?a" by (rule cpCalc_length(1) [OF m])
  have n2: "2 \<le> length ?a"
  proof (rule ccontr)
    assume "\<not> 2 \<le> length ?a"
    with cpCalc_length(2) [OF m] have "length ?a = Suc 0" by arith
    with cpCalc_length(4) [OF m] have "9999 / 10000 \<le> poisson_below 1 (Suc 0)" by simp
    with e1 show False by (simp add: p1)
  qed
  then have i0: "0 < length ?a" and i1: "Suc 0 < length ?a" by arith+
  obtain a0 a1 ar where a: "?a = a0 # a1 # ar"
    using n2 by (cases ?a; cases "tl ?a") auto
  obtain l0 l1 lr where l: "?l = l0 # l1 # lr"
    using n2 len by (cases ?l; cases "tl ?l") auto
  have "l0 = Fin 0" using cpCalc_entries(1) [OF m i0] by (simp add: l poisson_below_def)
  moreover have "a0 = Fin (exp (- 1))" using cpCalc_entries(2) [OF m i0] by (simp add: a p1)
  moreover have "l1 = Fin (exp (- 1))" using cpCalc_entries(1) [OF m i1] by (simp add: l p1)
  moreover have "a1 = Fin (2 * exp (- 1))" using cpCalc_entries(2) [OF m i1] by (simp add: a p2)
  ultimately have tab: "lookupTable 1
      = (Fin 0, Fin (exp (- 1))) # (Fin (exp (- 1)), Fin (2 * exp (- 1))) # zip lr ar"
    by (simp add: lookupTable_def a l)
  show ?thesis
    unfolding sampledGap_def tab using e1 e2 by simp
qed

theorem generateInterarrivals_trace_witness:
  "(0 :: real) < 1 \<and> (0 :: real) < 5
   \<and> generateInterarrivals 1 5 (\<lambda>n. 1 / 2) = [0, 2, 2]"
proof -
  have h1: "(0 :: real) < 1" and h2: "(0 :: real) < 5" by simp_all
  from generateInterarrivals_trace [OF h1 h2, of "\<lambda>n. 1 / 2"]
  obtain L where r: "generateInterarrivals 1 5 (\<lambda>n. 1 / 2)
                       = 0 # map (sampledGap 1 (\<lambda>n. 1 / 2)) [0..<L]"
    and le: "sum_list (generateInterarrivals 1 5 (\<lambda>n. 1 / 2)) \<le> 5"
    and gt: "5 < sum_list (generateInterarrivals 1 5 (\<lambda>n. 1 / 2)) + sampledGap 1 (\<lambda>n. 1 / 2) L"
    by blast
  have g: "sampledGap 1 (\<lambda>n. 1 / 2) = (\<lambda>n. 2)" by (rule ext) (rule sampledGap_half)
  have s: "sum_list (generateInterarrivals 1 5 (\<lambda>n. 1 / 2)) = 2 * real L"
    unfolding r g by (simp add: sum_list_triv)
  from le s have "2 * real L \<le> 5" by simp
  then have "L \<le> 2" by linarith
  moreover from gt s have "5 < 2 * real L + 2" by (simp add: g)
  then have "2 \<le> L" by linarith
  ultimately have "L = 2" by simp
  then have "generateInterarrivals 1 5 (\<lambda>n. 1 / 2) = [0, 2, 2]"
    unfolding r g by (simp add: numeral_2_eq_2)
  then show ?thesis using h1 h2 by simp
qed

section \<open>The shape of the simulation result\<close>

lemma arrivalTimes_loop_length: "length (arrivalTimes_loop t gs) = length gs"
  by (induction t gs rule: arrivalTimes_loop.induct) simp_all

lemma arrivalTimes_of_length: "length (arrivalTimes_of gaps) = max 1 (length gaps)"
  by (cases gaps) (simp_all add: arrivalTimes_of_def arrivalTimes_loop_length)

lemma simulate_loop_length: "length (simulate_loop c st i as ends) = length as"
  by (induction c st i as ends rule: simulate_loop.induct) (simp_all add: Let_def split: prod.splits)

lemma simulateQueue_totalCustomers:
  "totalCustomers (simulateQueue gaps services c) = max 1 (length gaps)"
  "length (arrivalTimes (simulateQueue gaps services c)) = max 1 (length gaps)"
  "length (startTimes (simulateQueue gaps services c)) = max 1 (length gaps)"
  "length (endTimes (simulateQueue gaps services c)) = max 1 (length gaps)"
  "length (waitTimes (simulateQueue gaps services c)) = max 1 (length gaps)"
  "length (turnaroundTimes (simulateQueue gaps services c)) = max 1 (length gaps)"
  "length (responseTimes (simulateQueue gaps services c)) = max 1 (length gaps)"
  "length (servers (simulateQueue gaps services c)) = max 1 (length gaps)"
  "length (queueLengths (simulateQueue gaps services c)) = max 1 (length gaps)"
  by (simp_all add: simulateQueue_def Let_def simulate_loop_length arrivalTimes_of_length)

lemma queued_le: "length (filter P [0..<c]) \<le> c"
  using length_filter_le [of P "[0..<c]"] by simp

lemma dispatch_queueLength: "queueLength (fst (dispatch ends c a sv)) = 0"
  using queued_le [of "\<lambda>s. js_gt (js_get ends s) (Num a)" c]
  by (simp add: dispatch_def Let_def)

lemma simulate_loop_queueLength:
  "map queueLength (simulate_loop c st i as ends) = replicate (length as) 0"
proof (induction c st i as ends rule: simulate_loop.induct)
  case (1 c st i ends)
  then show ?case by simp
next
  case (2 c st i a rest ends)
  obtain r ends' where d: "dispatch ends c a (serviceAt st i) = (r, ends')"
    by (cases "dispatch ends c a (serviceAt st i)")
  have "queueLength r = 0" using dispatch_queueLength [of ends c a "serviceAt st i"] d by simp
  then show ?case using 2 [OF d [symmetric] refl] d by simp
qed

text \<open>
  Claim C5. For every gap sequence, every service-time sequence and every server count,
  every element of \<open>queueLengths\<close> is 0: the number of servers whose next-available time
  exceeds the arrival time is at most \<open>serverCount\<close>, and \<open>serverCount\<close> is subtracted from
  it before the result is floored at 0.
\<close>

theorem queueLengths_all_zero:
  "queueLengths (simulateQueue gaps services serverCount)
     = replicate (totalCustomers (simulateQueue gaps services serverCount)) 0
   \<and> length (filter (\<lambda>s. js_gt (js_get serverEndTimes s) (Num arrival)) [0..<serverCount])
       \<le> serverCount"
  using queued_le [of "\<lambda>s. js_gt (js_get serverEndTimes s) (Num arrival)" serverCount]
  by (simp add: simulateQueue_def Let_def simulate_loop_queueLength simulate_loop_length)

text \<open>
  Claim C4, as amended. An empty record sequence is not reachable: \<open>simulateQueue\<close>
  always records the customer that arrives at time 0, so \<open>totalCustomers\<close> is the number of
  gaps or 1, whichever is larger, and every result array has that length. For a positive
  horizon \<open>generateInterarrivals\<close> returns at least the leading 0, and for a very short
  horizon (below 1) it returns exactly \<open>[0]\<close>: the simulation then returns one record and
  \<open>totalCustomers = 1\<close>.
\<close>

theorem simulateQueue_at_least_one:
  "totalCustomers (simulateQueue gaps services c) = max 1 (length gaps)
   \<and> 1 \<le> totalCustomers (simulateQueue gaps services c)
   \<and> length (arrivalTimes (simulateQueue gaps services c))
       = totalCustomers (simulateQueue gaps services c)
   \<and> length (startTimes (simulateQueue gaps services c))
       = totalCustomers (simulateQueue gaps services c)
   \<and> length (endTimes (simulateQueue gaps services c))
       = totalCustomers (simulateQueue gaps services c)
   \<and> (0 < maxTime \<longrightarrow>
        totalCustomers (simulateQueue (generateInterarrivals mean maxTime rnd) services c)
          = length (generateInterarrivals mean maxTime rnd))
   \<and> (0 < maxTime \<and> maxTime < 1 \<longrightarrow>
        generateInterarrivals mean maxTime rnd = [0]
        \<and> totalCustomers (simulateQueue (generateInterarrivals mean maxTime rnd) services c) = 1)"
proof -
  have a: "totalCustomers (simulateQueue (generateInterarrivals mean maxTime rnd) services c)
             = length (generateInterarrivals mean maxTime rnd)" if "0 < maxTime"
  proof -
    from generateInterarrivals_shape [OF that, of mean rnd]
    obtain gs where "generateInterarrivals mean maxTime rnd = 0 # gs" by blast
    then show ?thesis by (simp add: simulateQueue_totalCustomers)
  qed
  have b: "generateInterarrivals mean maxTime rnd = [0]
           \<and> totalCustomers (simulateQueue (generateInterarrivals mean maxTime rnd) services c) = 1"
    if "0 < maxTime \<and> maxTime < 1"
    using that generateInterarrivals_short [of maxTime mean rnd]
    by (simp add: simulateQueue_totalCustomers)
  show ?thesis
    using a b by (simp add: simulateQueue_totalCustomers)
qed

theorem simulateQueue_at_least_one_witness:
  "(0 :: real) < 1 / 2 \<and> (1 / 2 :: real) < 1
   \<and> generateInterarrivals 5 (1 / 2) (\<lambda>n. 0) = [0]
   \<and> totalCustomers (simulateQueue (generateInterarrivals 5 (1 / 2) (\<lambda>n. 0)) [1] 1) = 1"
proof -
  have h: "(0 :: real) < 1 / 2 \<and> (1 / 2 :: real) < 1" by simp
  from simulateQueue_at_least_one [where maxTime = "1 / 2" and mean = 5 and rnd = "\<lambda>n. 0"
      and services = "[1]" and c = 1]
  have "0 < (1 / 2 :: real) \<and> (1 / 2 :: real) < 1 \<longrightarrow>
        generateInterarrivals 5 (1 / 2) (\<lambda>n. 0) = [0]
        \<and> totalCustomers (simulateQueue (generateInterarrivals 5 (1 / 2) (\<lambda>n. 0)) [1] 1) = 1"
    by blast
  with h show ?thesis by blast
qed

text \<open>
  Claim C4 as stated fails: no input of \<open>simulateQueue\<close> gives \<open>totalCustomers = 0\<close> or an
  empty record sequence.
\<close>

theorem simulateQueue_empty_counterexample:
  "\<not> (\<exists>gaps services c. totalCustomers (simulateQueue gaps services c) = 0
                         \<or> startTimes (simulateQueue gaps services c) = [])"
proof
  assume "\<exists>gaps services c. totalCustomers (simulateQueue gaps services c) = 0
                         \<or> startTimes (simulateQueue gaps services c) = []"
  then obtain gaps services c where
    "totalCustomers (simulateQueue gaps services c) = 0
     \<or> length (startTimes (simulateQueue gaps services c)) = 0"
    by auto
  then show False by (simp add: simulateQueue_totalCustomers)
qed

section \<open>Properties of well-formed runs\<close>

subsection \<open>Rounding\<close>

lemma roundTo_mono: "x \<le> y \<Longrightarrow> roundTo x d \<le> roundTo y d"
  unfolding roundTo_def Math_round_def
  by (intro divide_right_mono of_int_le_iff [THEN iffD2] floor_mono add_right_mono mult_right_mono)
     simp_all







subsection \<open>Server selection\<close>

lemma js_get_Num: "s < length es \<Longrightarrow> js_get (map Num es) s = Num (es ! s)"
  by (simp add: js_get_def)

lemma select_fold:
  assumes "1 \<le> n" and "n \<le> length es"
  shows "\<exists>k. fold (\<lambda>s (serverIndex, earliestEndTime).
                  if js_lt (js_get (map Num es) s) earliestEndTime
                  then (s, js_get (map Num es) s)
                  else (serverIndex, earliestEndTime))
               [1..<n] (0, js_get (map Num es) 0) = (k, Num (es ! k))
            \<and> k < n \<and> (\<forall>s<n. es ! k \<le> es ! s) \<and> (\<forall>s<k. es ! k < es ! s)"
  using assms
proof (induction n)
  case 0
  then show ?case by simp
next
  case (Suc n)
  show ?case
  proof (cases "n = 0")
    case True
    have "0 < length es" using Suc.prems by arith
    then have "js_get (map Num es) 0 = Num (es ! 0)" by (rule js_get_Num)
    with True show ?thesis by simp
  next
    case False
    then have n: "1 \<le> n" "n \<le> length es" "n < length es" using Suc.prems by simp_all
    from Suc.IH [OF n(1,2)] obtain k where
      k: "fold (\<lambda>s (serverIndex, earliestEndTime).
                  if js_lt (js_get (map Num es) s) earliestEndTime
                  then (s, js_get (map Num es) s)
                  else (serverIndex, earliestEndTime))
               [1..<n] (0, js_get (map Num es) 0) = (k, Num (es ! k))"
      and b: "k < n" "\<forall>s<n. es ! k \<le> es ! s" "\<forall>s<k. es ! k < es ! s"
      by blast
    have up: "[1..<Suc n] = [1..<n] @ [n]" using n(1) by simp
    show ?thesis
    proof (cases "es ! n < es ! k")
      case True
      have "\<forall>s<Suc n. es ! n \<le> es ! s"
        using b(2) True by (auto simp: less_Suc_eq)
      moreover have "\<forall>s<n. es ! n < es ! s"
        using b(2) True by fastforce
      ultimately show ?thesis
        unfolding up fold_append comp_def k using True n(3)
        by (intro exI [of _ n]) (simp add: js_get_Num)
    next
      case False
      have "\<forall>s<Suc n. es ! k \<le> es ! s"
        using b(2) False by (auto simp: less_Suc_eq)
      then show ?thesis
        unfolding up fold_append comp_def k using False n(3) b
        by (intro exI [of _ k]) (simp add: js_get_Num)
    qed
  qed
qed

lemma selectServer_least:
  assumes "es \<noteq> []"
  shows "selectServer (map Num es) (length es) < length es"
    and "\<forall>s<length es. es ! selectServer (map Num es) (length es) \<le> es ! s"
    and "\<forall>s<selectServer (map Num es) (length es).
           es ! selectServer (map Num es) (length es) < es ! s"
proof -
  have "1 \<le> length es" using assms by (cases es) simp_all
  from select_fold [OF this order_refl] obtain k where
    "fold (\<lambda>s (serverIndex, earliestEndTime).
                  if js_lt (js_get (map Num es) s) earliestEndTime
                  then (s, js_get (map Num es) s)
                  else (serverIndex, earliestEndTime))
               [1..<length es] (0, js_get (map Num es) 0) = (k, Num (es ! k))"
    and b: "k < length es" "\<forall>s<length es. es ! k \<le> es ! s" "\<forall>s<k. es ! k < es ! s"
    by blast
  then have "selectServer (map Num es) (length es) = k"
    by (simp add: selectServer_def)
  with b show "selectServer (map Num es) (length es) < length es"
    and "\<forall>s<length es. es ! selectServer (map Num es) (length es) \<le> es ! s"
    and "\<forall>s<selectServer (map Num es) (length es).
           es ! selectServer (map Num es) (length es) < es ! s"
    by simp_all
qed

subsection \<open>The simulation on numbers\<close>

lemma dispatch_Num:
  assumes "es \<noteq> []"
  shows "dispatch (map Num es) (length es) a (Num sv) =
           (job_row \<lparr>job_server = selectServer (map Num es) (length es), job_arrival = a,
                     job_start = max a (es ! selectServer (map Num es) (length es)),
                     job_service = sv\<rparr>,
            map Num (es[selectServer (map Num es) (length es)
                        := max a (es ! selectServer (map Num es) (length es)) + sv]))"
proof -
  let ?k = "selectServer (map Num es) (length es)"
  have k: "?k < length es" by (rule selectServer_least(1) [OF assms])
  have q: "queueLength (fst (dispatch (map Num es) (length es) a (Num sv))) = 0"
    by (rule dispatch_queueLength)
  have g: "js_get (map Num es) ?k = Num (es ! ?k)" by (rule js_get_Num [OF k])
  have st: "js_set (map Num es) ?k v = (map Num es)[?k := v]" for v
    using k by (simp add: js_set_def)
  have "snd (dispatch (map Num es) (length es) a (Num sv))
          = map Num (es[?k := max a (es ! ?k) + sv])"
    by (simp add: dispatch_def Let_def g st map_update)
  moreover have "fst (dispatch (map Num es) (length es) a (Num sv))
          = job_row \<lparr>job_server = ?k, job_arrival = a, job_start = max a (es ! ?k),
                     job_service = sv\<rparr>"
    using q by (simp add: dispatch_def Let_def g job_row_def)
  ultimately show ?thesis by (simp add: prod_eq_iff)
qed

lemma simulate_loop_schedule:
  assumes "es \<noteq> []" and "i + length as \<le> length st"
  shows "simulate_loop (length es) st i as (map Num es)
           = map job_row (schedule es (zip as (drop i st)))"
  using assms
proof (induction as arbitrary: i es)
  case Nil
  then show ?case by simp
next
  case (Cons a as)
  let ?k = "selectServer (map Num es) (length es)"
  let ?s = "max a (es ! ?k)"
  have i: "i < length st" using Cons.prems(2) by simp
  then have dr: "drop i st = st ! i # drop (Suc i) st" by (simp add: Cons_nth_drop_Suc)
  have sa: "serviceAt st i = Num (st ! i)" using i by (simp add: serviceAt_def)
  have ne: "es[?k := ?s + st ! i] \<noteq> []" using Cons.prems(1) by simp
  have len: "length (es[?k := ?s + st ! i]) = length es" by simp
  have "Suc i + length as \<le> length st" using Cons.prems(2) by simp
  from Cons.IH [OF ne this]
  have IH: "simulate_loop (length es) st (Suc i) as (map Num (es[?k := ?s + st ! i]))
              = map job_row (schedule (es[?k := ?s + st ! i]) (zip as (drop (Suc i) st)))"
    by (simp only: len)
  show ?case
    by (simp add: sa dispatch_Num [OF Cons.prems(1)] dr Let_def IH)
qed

lemma schedule_length: "length (schedule es xs) = length xs"
  by (induction es xs rule: schedule.induct) (simp_all add: Let_def)

lemma schedule_inputs:
  "map (\<lambda>j. (job_arrival j, job_service j)) (schedule es xs) = xs"
  by (induction es xs rule: schedule.induct) (simp_all add: Let_def)

lemma schedule_server_lt:
  "es \<noteq> [] \<Longrightarrow> \<forall>j \<in> set (schedule es xs). job_server j < length es"
proof (induction es xs rule: schedule.induct)
  case (1 es)
  then show ?case by simp
next
  case (2 es a sv rest)
  let ?k = "selectServer (map Num es) (length es)"
  have k: "?k < length es" by (rule selectServer_least(1) [OF "2.prems"])
  have "es[?k := max a (es ! ?k) + sv] \<noteq> []" using "2.prems" by simp
  from "2.IH" [OF refl refl this] k show ?case by (simp add: Let_def)
qed

lemma schedule_order:
  assumes "es \<noteq> []" and "\<forall>x \<in> set xs. 0 \<le> snd x"
  shows "(\<forall>j \<in> set (schedule es xs). es ! job_server j \<le> job_start j)
       \<and> sorted_wrt hands_over (schedule es xs)"
  using assms
proof (induction es xs rule: schedule.induct)
  case (1 es)
  then show ?case by simp
next
  case (2 es a sv rest)
  let ?k = "selectServer (map Num es) (length es)"
  let ?s = "max a (es ! ?k)"
  let ?es' = "es[?k := ?s + sv]"
  let ?j0 = "\<lparr>job_server = ?k, job_arrival = a, job_start = ?s, job_service = sv\<rparr>"
  have k: "?k < length es" by (rule selectServer_least(1) [OF "2.prems"(1)])
  have sv: "0 \<le> sv" using "2.prems"(2) by simp
  have ne: "?es' \<noteq> []" using "2.prems"(1) by simp
  have rest: "\<forall>x \<in> set rest. 0 \<le> snd x" using "2.prems"(2) by simp
  from "2.IH" [OF refl refl ne rest]
  have IH1: "\<forall>j \<in> set (schedule ?es' rest). ?es' ! job_server j \<le> job_start j"
    and IH2: "sorted_wrt hands_over (schedule ?es' rest)"
    by simp_all
  have grow: "es ! m \<le> ?es' ! m" if "m < length es" for m
  proof (cases "m = ?k")
    case True
    have "es ! ?k \<le> ?s" by simp
    also have "\<dots> \<le> ?s + sv" using sv by simp
    finally show ?thesis using True k by simp
  next
    case False
    then show ?thesis by simp
  qed
  have srv: "\<forall>j \<in> set (schedule ?es' rest). job_server j < length es"
    using schedule_server_lt [OF ne, of rest] by simp
  have a1: "\<forall>j \<in> set (schedule ?es' rest). es ! job_server j \<le> job_start j"
  proof
    fix j assume j: "j \<in> set (schedule ?es' rest)"
    with srv have "es ! job_server j \<le> ?es' ! job_server j" by (intro grow) blast
    also have "\<dots> \<le> job_start j" using IH1 j by blast
    finally show "es ! job_server j \<le> job_start j" .
  qed
  have a2: "\<forall>j \<in> set (schedule ?es' rest). hands_over ?j0 j"
  proof
    fix j assume j: "j \<in> set (schedule ?es' rest)"
    show "hands_over ?j0 j"
      unfolding hands_over_def
    proof
      assume "job_server ?j0 = job_server j"
      then have e: "job_server j = ?k" by simp
      have "?es' ! ?k = ?s + sv" using k by simp
      with IH1 j e show "job_start ?j0 + job_service ?j0 \<le> job_start j" by fastforce
    qed
  qed
  have sch: "schedule es ((a, sv) # rest) = ?j0 # schedule ?es' rest"
    by (simp add: Let_def)
  show ?case unfolding sch using a1 a2 IH2 by simp
qed




subsection \<open>The records of a well-formed run\<close>

lemma simulate_loop_jobs:
  assumes "1 \<le> c" and "max 1 (length gaps) \<le> length services"
  shows "simulate_loop c services 0 (arrivalTimes_of gaps) (replicate c (Num 0))
           = map job_row (jobs gaps services c)"
proof -
  have ne: "replicate c (0 :: real) \<noteq> []" using assms(1) by (cases c) simp_all
  have len: "0 + length (arrivalTimes_of gaps) \<le> length services"
    using assms(2) by (simp add: arrivalTimes_of_length)
  from simulate_loop_schedule [OF ne len] show ?thesis
    by (simp add: jobs_def)
qed

lemma jobs_length:
  assumes "max 1 (length gaps) \<le> length services"
  shows "length (jobs gaps services c) = max 1 (length gaps)"
  using assms by (simp add: jobs_def schedule_length arrivalTimes_of_length)

lemma jobs_inputs:
  assumes "max 1 (length gaps) \<le> length services" and "i < max 1 (length gaps)"
  shows "job_arrival (jobs gaps services c ! i) = arrivalTimes_of gaps ! i"
    and "job_service (jobs gaps services c ! i) = services ! i"
proof -
  let ?J = "jobs gaps services c"
  have i: "i < length ?J" using assms by (simp add: jobs_length)
  have z: "i < length (zip (arrivalTimes_of gaps) services)"
    using assms by (simp add: arrivalTimes_of_length)
  have "map (\<lambda>j. (job_arrival j, job_service j)) ?J = zip (arrivalTimes_of gaps) services"
    unfolding jobs_def by (rule schedule_inputs)
  then have "map (\<lambda>j. (job_arrival j, job_service j)) ?J ! i
               = zip (arrivalTimes_of gaps) services ! i"
    by simp
  then have "(job_arrival (?J ! i), job_service (?J ! i))
               = (arrivalTimes_of gaps ! i, services ! i)"
    using i z by (simp only: nth_map nth_zip length_zip min_less_iff_conj)
  then show "job_arrival (?J ! i) = arrivalTimes_of gaps ! i"
    and "job_service (?J ! i) = services ! i"
    by simp_all
qed

lemma simulateQueue_columns:
  assumes "1 \<le> c" and "max 1 (length gaps) \<le> length services"
    and "i < max 1 (length gaps)"
  shows "arrivalTimes (simulateQueue gaps services c) ! i = job_arrival (jobs gaps services c ! i)"
    and "serviceTimes (simulateQueue gaps services c) ! i = job_service (jobs gaps services c ! i)"
    and "startTimes (simulateQueue gaps services c) ! i
           = Num (roundTo (job_start (jobs gaps services c ! i)) 2)"
    and "endTimes (simulateQueue gaps services c) ! i
           = Num (roundTo (job_start (jobs gaps services c ! i)
                            + job_service (jobs gaps services c ! i)) 2)"
    and "waitTimes (simulateQueue gaps services c) ! i
           = Num (roundTo (max 0 (job_start (jobs gaps services c ! i)
                                   - job_arrival (jobs gaps services c ! i))) 2)"
    and "turnaroundTimes (simulateQueue gaps services c) ! i
           = Num (roundTo (job_start (jobs gaps services c ! i)
                            + job_service (jobs gaps services c ! i)
                            - job_arrival (jobs gaps services c ! i)) 2)"
    and "servers (simulateQueue gaps services c) ! i = job_server (jobs gaps services c ! i) + 1"
proof -
  let ?J = "jobs gaps services c"
  have i: "i < length ?J" using assms(2,3) by (simp add: jobs_length)
  note rows = simulate_loop_jobs [OF assms(1,2)]
  show "arrivalTimes (simulateQueue gaps services c) ! i = job_arrival (?J ! i)"
    using jobs_inputs(1) [OF assms(2,3)] by (simp add: simulateQueue_def Let_def)
  show "serviceTimes (simulateQueue gaps services c) ! i = job_service (?J ! i)"
    using jobs_inputs(2) [OF assms(2,3)] by (simp add: simulateQueue_def Let_def)
  show "startTimes (simulateQueue gaps services c) ! i = Num (roundTo (job_start (?J ! i)) 2)"
    using i by (simp add: simulateQueue_def Let_def rows job_row_def)
  show "endTimes (simulateQueue gaps services c) ! i
          = Num (roundTo (job_start (?J ! i) + job_service (?J ! i)) 2)"
    using i by (simp add: simulateQueue_def Let_def rows job_row_def)
  show "waitTimes (simulateQueue gaps services c) ! i
          = Num (roundTo (max 0 (job_start (?J ! i) - job_arrival (?J ! i))) 2)"
    using i by (simp add: simulateQueue_def Let_def rows job_row_def)
  show "turnaroundTimes (simulateQueue gaps services c) ! i
          = Num (roundTo (job_start (?J ! i) + job_service (?J ! i) - job_arrival (?J ! i)) 2)"
    using i by (simp add: simulateQueue_def Let_def rows job_row_def)
  show "servers (simulateQueue gaps services c) ! i = job_server (?J ! i) + 1"
    using i by (simp add: simulateQueue_def Let_def rows job_row_def)
qed



lemma busyAt_card: "busyAt r t = card {i. i < totalCustomers r \<and> inService r t i}"
proof -
  have "{i. i < length [0..<totalCustomers r] \<and> inService r t ([0..<totalCustomers r] ! i)}
          = {i. i < totalCustomers r \<and> inService r t i}"
    by auto
  then show ?thesis
    unfolding busyAt_def length_filter_conv_card by simp
qed

lemma jobs_no_overlap:
  assumes c: "1 \<le> c" and len: "max 1 (length gaps) \<le> length services"
    and nonneg: "\<forall>s \<in> set services. 0 \<le> s"
    and lt: "i < i'" and i': "i' < max 1 (length gaps)"
    and same: "job_server (jobs gaps services c ! i) = job_server (jobs gaps services c ! i')"
    and busy: "inService (simulateQueue gaps services c) t i"
    and busy': "inService (simulateQueue gaps services c) t i'"
  shows False
proof -
  let ?J = "jobs gaps services c"
  have i: "i < max 1 (length gaps)" using lt i' by simp
  have ne: "replicate c (0 :: real) \<noteq> []" using c by (cases c) simp_all
  have xs: "\<forall>x \<in> set (zip (arrivalTimes_of gaps) services). 0 \<le> snd x"
  proof
    fix x assume x: "x \<in> set (zip (arrivalTimes_of gaps) services)"
    obtain a sv where p: "x = (a, sv)" by (cases x)
    from x have "sv \<in> set services" unfolding p by (rule set_zip_rightD)
    with nonneg show "0 \<le> snd x" by (simp add: p)
  qed
  from schedule_order [OF ne xs] have "sorted_wrt hands_over ?J" by (simp add: jobs_def)
  moreover have "i' < length ?J" using i' len by (simp add: jobs_length)
  ultimately have "hands_over (?J ! i) (?J ! i')" using lt by (simp add: sorted_wrt_nth_less)
  with same have "job_start (?J ! i) + job_service (?J ! i) \<le> job_start (?J ! i')"
    by (simp add: hands_over_def)
  then have le: "roundTo (job_start (?J ! i) + job_service (?J ! i)) 2
                   \<le> roundTo (job_start (?J ! i')) 2"
    by (rule roundTo_mono)
  from busy have "t < roundTo (job_start (?J ! i) + job_service (?J ! i)) 2"
    by (simp add: inService_def simulateQueue_columns(4) [OF c len i])
  moreover from busy' have "roundTo (job_start (?J ! i')) 2 \<le> t"
    by (simp add: inService_def simulateQueue_columns(3) [OF c len i'])
  ultimately show False using le by simp
qed

lemma schedule_states_hd: "schedule_states es xs ! 0 = es"
  by (cases xs) (auto simp: Let_def)

lemma schedule_states_length: "length (schedule_states es xs) = Suc (length xs)"
  by (induction es xs rule: schedule_states.induct) (simp_all add: Let_def)

lemma serverEndTimes_loop_states:
  assumes "es \<noteq> []" and "i + length as \<le> length st"
  shows "serverEndTimes_loop (length es) st i as (map Num es)
           = map (map Num) (schedule_states es (zip as (drop i st)))"
  using assms
proof (induction as arbitrary: i es)
  case Nil
  then show ?case by simp
next
  case (Cons a as)
  let ?k = "selectServer (map Num es) (length es)"
  let ?s = "max a (es ! ?k)"
  have i: "i < length st" using Cons.prems(2) by simp
  then have dr: "drop i st = st ! i # drop (Suc i) st" by (simp add: Cons_nth_drop_Suc)
  have sa: "serviceAt st i = Num (st ! i)" using i by (simp add: serviceAt_def)
  have ne: "es[?k := ?s + st ! i] \<noteq> []" using Cons.prems(1) by simp
  have len: "length (es[?k := ?s + st ! i]) = length es" by simp
  have "Suc i + length as \<le> length st" using Cons.prems(2) by simp
  from Cons.IH [OF ne this]
  have IH: "serverEndTimes_loop (length es) st (Suc i) as (map Num (es[?k := ?s + st ! i]))
              = map (map Num) (schedule_states (es[?k := ?s + st ! i]) (zip as (drop (Suc i) st)))"
    by (simp only: len)
  show ?case
    by (simp add: sa dispatch_Num [OF Cons.prems(1)] dr Let_def IH)
qed

lemma schedule_states_step:
  assumes "es \<noteq> []" and "idx < length xs"
  shows "length (schedule_states es xs ! idx) = length es
       \<and> job_server (schedule es xs ! idx)
           = selectServer (map Num (schedule_states es xs ! idx)) (length es)
       \<and> schedule_states es xs ! Suc idx
           = (schedule_states es xs ! idx)
               [job_server (schedule es xs ! idx)
                  := job_start (schedule es xs ! idx) + job_service (schedule es xs ! idx)]"
  using assms
proof (induction xs arbitrary: es idx)
  case Nil
  then show ?case by simp
next
  case (Cons x rest)
  obtain a sv where x: "x = (a, sv)" by (cases x)
  let ?k = "selectServer (map Num es) (length es)"
  let ?s = "max a (es ! ?k)"
  let ?es' = "es[?k := ?s + sv]"
  have S: "schedule_states es (x # rest) = es # schedule_states ?es' rest"
    and J: "schedule es (x # rest)
              = \<lparr>job_server = ?k, job_arrival = a, job_start = ?s, job_service = sv\<rparr>
                  # schedule ?es' rest"
    by (simp_all add: x Let_def)
  have ne: "?es' \<noteq> []" using Cons.prems(1) by simp
  show ?case
  proof (cases idx)
    case 0
    then show ?thesis by (simp add: S J schedule_states_hd)
  next
    case (Suc j)
    with Cons.prems(2) have "j < length rest" by simp
    from Cons.IH [OF ne this] show ?thesis by (simp add: S J Suc)
  qed
qed

lemma history_states:
  assumes "1 \<le> c" and "max 1 (length gaps) \<le> length services"
  shows "serverEndTimes_history gaps services c
           = map (map Num) (schedule_states (replicate c 0) (zip (arrivalTimes_of gaps) services))"
proof -
  have ne: "replicate c (0 :: real) \<noteq> []" using assms(1) by (cases c) simp_all
  have len: "0 + length (arrivalTimes_of gaps) \<le> length services"
    using assms(2) by (simp add: arrivalTimes_of_length)
  from serverEndTimes_loop_states [OF ne len] show ?thesis
    by (simp add: serverEndTimes_history_def)
qed

lemma dispatched_to_earliest:
  assumes c: "1 \<le> c" and len: "max 1 (length gaps) \<le> length services"
    and i: "i < max 1 (length gaps)"
  shows "\<exists>ends e. serverEndTimes_history gaps services c ! i = map Num ends
           \<and> length ends = c
           \<and> 1 \<le> servers (simulateQueue gaps services c) ! i
           \<and> servers (simulateQueue gaps services c) ! i \<le> c
           \<and> (\<forall>s < c. ends ! (servers (simulateQueue gaps services c) ! i - 1) \<le> ends ! s)
           \<and> (\<forall>s < servers (simulateQueue gaps services c) ! i - 1.
                 ends ! (servers (simulateQueue gaps services c) ! i - 1) < ends ! s)
           \<and> serverEndTimes_history gaps services c ! Suc i
               = map Num (ends[servers (simulateQueue gaps services c) ! i - 1 := e])
           \<and> endTimes (simulateQueue gaps services c) ! i = Num (roundTo e 2)"
proof -
  let ?xs = "zip (arrivalTimes_of gaps) services"
  let ?S = "schedule_states (replicate c 0) ?xs"
  let ?J = "jobs gaps services c"
  let ?k = "job_server (?J ! i)"
  let ?e = "job_start (?J ! i) + job_service (?J ! i)"
  have ne: "replicate c (0 :: real) \<noteq> []" using c by (cases c) simp_all
  have lx: "length ?xs = max 1 (length gaps)"
    using len by (simp add: arrivalTimes_of_length min_absorb1)
  have ix: "i < length ?xs" using i lx by simp
  from schedule_states_step [OF ne ix]
  have l: "length (?S ! i) = c"
    and k: "?k = selectServer (map Num (?S ! i)) (length (?S ! i))"
    and nx: "?S ! Suc i = (?S ! i)[?k := ?e]"
    by (simp_all add: jobs_def)
  have nei: "?S ! i \<noteq> []" using l c by auto
  note least = selectServer_least [OF nei, folded k]
  have lS: "length ?S = Suc (max 1 (length gaps))"
    by (simp only: schedule_states_length lx)
  have h: "serverEndTimes_history gaps services c ! i = map Num (?S ! i)"
    "serverEndTimes_history gaps services c ! Suc i = map Num (?S ! Suc i)"
    using i lS by (simp_all add: history_states [OF c len])
  have srv: "servers (simulateQueue gaps services c) ! i = ?k + 1"
    by (rule simulateQueue_columns(7) [OF c len i])
  have en: "endTimes (simulateQueue gaps services c) ! i = Num (roundTo ?e 2)"
    by (rule simulateQueue_columns(4) [OF c len i])
  have "serverEndTimes_history gaps services c ! i = map Num (?S ! i)
      \<and> length (?S ! i) = c
      \<and> 1 \<le> ?k + 1 \<and> ?k + 1 \<le> c
      \<and> (\<forall>s < c. (?S ! i) ! (?k + 1 - 1) \<le> (?S ! i) ! s)
      \<and> (\<forall>s < ?k + 1 - 1. (?S ! i) ! (?k + 1 - 1) < (?S ! i) ! s)
      \<and> serverEndTimes_history gaps services c ! Suc i = map Num ((?S ! i)[?k + 1 - 1 := ?e])
      \<and> endTimes (simulateQueue gaps services c) ! i = Num (roundTo ?e 2)"
    using h l least nx en by simp
  then show ?thesis
    unfolding srv by blast
qed

lemma history_start:
  assumes "1 \<le> c" and "max 1 (length gaps) \<le> length services"
  shows "serverEndTimes_history gaps services c ! 0 = replicate c (Num 0)"
proof -
  have "0 < length (schedule_states (replicate c 0) (zip (arrivalTimes_of gaps) services))"
    by (simp add: schedule_states_length)
  then show ?thesis
    by (simp add: history_states [OF assms] schedule_states_hd)
qed

lemma history_eval:
  "serverEndTimes_history [0, 1, 1] [3 / 2, 1 / 4, 2] 2 ! 1 = [Num (3 / 2), Num 0]"
  by code_simp

lemma busyAt_le:
  assumes "1 \<le> serverCount" and "max 1 (length gaps) \<le> length services"
    and "\<forall>s \<in> set services. 0 \<le> s"
  shows "busyAt (simulateQueue gaps services serverCount) t \<le> serverCount"
proof -
  let ?r = "simulateQueue gaps services serverCount"
  let ?J = "jobs gaps services serverCount"
  let ?A = "{i. i < totalCustomers ?r \<and> inService ?r t i}"
  let ?f = "\<lambda>i. job_server (?J ! i)"
  have n: "totalCustomers ?r = max 1 (length gaps)" by (rule simulateQueue_totalCustomers(1))
  have ne: "replicate serverCount (0 :: real) \<noteq> []" using assms(1) by (cases serverCount) simp_all
  have inj: "inj_on ?f ?A"
  proof (rule inj_onI)
    fix i i' assume a: "i \<in> ?A" "i' \<in> ?A" and e: "?f i = ?f i'"
    from a n have bi: "i < max 1 (length gaps)" and bi': "i' < max 1 (length gaps)"
      and b: "inService ?r t i" and b': "inService ?r t i'"
      by simp_all
    show "i = i'"
    proof (rule ccontr)
      assume "i \<noteq> i'"
      then consider "i < i'" | "i' < i" by arith
      then show False
      proof cases
        case 1
        show False by (rule jobs_no_overlap [OF assms 1 bi' e b b'])
      next
        case 2
        show False by (rule jobs_no_overlap [OF assms 2 bi e [symmetric] b' b])
      qed
    qed
  qed
  have img: "?f ` ?A \<subseteq> {..<serverCount}"
  proof
    fix k assume "k \<in> ?f ` ?A"
    then obtain i where i: "i < max 1 (length gaps)" and k: "k = ?f i" using n by auto
    have "i < length ?J" using i assms(2) by (simp add: jobs_length)
    then have "?J ! i \<in> set (schedule (replicate serverCount 0) (zip (arrivalTimes_of gaps) services))"
      unfolding jobs_def by (rule nth_mem)
    with schedule_server_lt [OF ne] have "job_server (?J ! i) < serverCount" by fastforce
    then show "k \<in> {..<serverCount}" using k by simp
  qed
  have "card ?A \<le> card {..<serverCount}"
    using inj img by (rule card_inj_on_le) simp
  then show ?thesis by (simp add: busyAt_card)
qed

text \<open>
  Claim C3. With at least one server, a service time for every customer and non-negative
  service times, the number of customers with \<open>startTime \<le> t < endTime\<close> is at most
  \<open>serverCount\<close> at every instant \<open>t\<close>. Every arrival is dispatched to the server with the
  smallest next-available time, and among equals to the one with the lowest index: the
  next-available times start at 0; the arrival of customer \<open>i\<close> finds the times \<open>ends\<close>, its
  recorded server \<open>servers[i]\<close> has a time that is at most that of every server and strictly
  less than that of every server with a lower index; afterwards that server's time is the
  customer's end time \<open>e\<close> (recorded as \<open>endTimes[i]\<close> after rounding) and the other times
  are unchanged. The scan \<open>selectServer\<close> returns such an index for every non-empty list of
  times.
\<close>

theorem servers_never_double_booked:
  assumes "1 \<le> serverCount" and "max 1 (length gaps) \<le> length services"
    and "\<forall>s \<in> set services. 0 \<le> s"
  shows "busyAt (simulateQueue gaps services serverCount) t \<le> serverCount
       \<and> serverEndTimes_history gaps services serverCount ! 0 = replicate serverCount (Num 0)
       \<and> (\<forall>i < totalCustomers (simulateQueue gaps services serverCount).
            \<exists>ends e.
               serverEndTimes_history gaps services serverCount ! i = map Num ends
             \<and> length ends = serverCount
             \<and> 1 \<le> servers (simulateQueue gaps services serverCount) ! i
             \<and> servers (simulateQueue gaps services serverCount) ! i \<le> serverCount
             \<and> (\<forall>s < serverCount.
                   ends ! (servers (simulateQueue gaps services serverCount) ! i - 1) \<le> ends ! s)
             \<and> (\<forall>s < servers (simulateQueue gaps services serverCount) ! i - 1.
                   ends ! (servers (simulateQueue gaps services serverCount) ! i - 1) < ends ! s)
             \<and> serverEndTimes_history gaps services serverCount ! Suc i
                 = map Num (ends[servers (simulateQueue gaps services serverCount) ! i - 1 := e])
             \<and> endTimes (simulateQueue gaps services serverCount) ! i = Num (roundTo e 2))
       \<and> (es \<noteq> [] \<longrightarrow>
            selectServer (map Num es) (length es) < length es
          \<and> (\<forall>s < length es. es ! selectServer (map Num es) (length es) \<le> es ! s)
          \<and> (\<forall>s < selectServer (map Num es) (length es).
                es ! selectServer (map Num es) (length es) < es ! s))"
proof -
  have n: "totalCustomers (simulateQueue gaps services serverCount) = max 1 (length gaps)"
    by (rule simulateQueue_totalCustomers(1))
  have busy: "busyAt (simulateQueue gaps services serverCount) t \<le> serverCount"
    by (rule busyAt_le [OF assms])
  have start: "serverEndTimes_history gaps services serverCount ! 0 = replicate serverCount (Num 0)"
    by (rule history_start [OF assms(1,2)])
  have each: "\<exists>ends e.
               serverEndTimes_history gaps services serverCount ! i = map Num ends
             \<and> length ends = serverCount
             \<and> 1 \<le> servers (simulateQueue gaps services serverCount) ! i
             \<and> servers (simulateQueue gaps services serverCount) ! i \<le> serverCount
             \<and> (\<forall>s < serverCount.
                   ends ! (servers (simulateQueue gaps services serverCount) ! i - 1) \<le> ends ! s)
             \<and> (\<forall>s < servers (simulateQueue gaps services serverCount) ! i - 1.
                   ends ! (servers (simulateQueue gaps services serverCount) ! i - 1) < ends ! s)
             \<and> serverEndTimes_history gaps services serverCount ! Suc i
                 = map Num (ends[servers (simulateQueue gaps services serverCount) ! i - 1 := e])
             \<and> endTimes (simulateQueue gaps services serverCount) ! i = Num (roundTo e 2)"
    if "i < totalCustomers (simulateQueue gaps services serverCount)" for i
    using that n dispatched_to_earliest [OF assms(1,2), of i] by simp
  show ?thesis using busy start each selectServer_least [of es] by blast
qed

theorem servers_never_double_booked_witness:
  "(1 :: nat) \<le> 2 \<and> max 1 (length [0, 1, 1 :: real]) \<le> length [3 / 2, 1 / 4, 2 :: real]
   \<and> list_all (\<lambda>s. 0 \<le> s) [3 / 2, 1 / 4, 2 :: real]
   \<and> busyAt (simulateQueue [0, 1, 1] [3 / 2, 1 / 4, 2] 2) (11 / 10) \<le> 2
   \<and> servers (simulateQueue [0, 1, 1] [3 / 2, 1 / 4, 2] 2) ! 1 = 2
   \<and> selectServer (map Num [3 / 2, 5 / 4]) (length [3 / 2, 5 / 4 :: real]) < 2"
proof -
  let ?r = "simulateQueue [0, 1, 1] [3 / 2, 1 / 4, 2] 2"
  have h1: "(1 :: nat) \<le> 2"
    and h2: "max 1 (length [0, 1, 1 :: real]) \<le> length [3 / 2, 1 / 4, 2 :: real]"
    and h3: "\<forall>s \<in> set [3 / 2, 1 / 4, 2 :: real]. 0 \<le> s"
    by simp_all
  have ne: "[3 / 2, 5 / 4 :: real] \<noteq> []" by simp
  have n: "1 < totalCustomers ?r" by (simp add: simulateQueue_totalCustomers)
  note inst = servers_never_double_booked [OF h1 h2 h3, of "11 / 10" "[3 / 2, 5 / 4]"]
  from inst ne
  have busy: "busyAt ?r (11 / 10) \<le> 2"
    and sel: "selectServer (map Num [3 / 2, 5 / 4]) (length [3 / 2, 5 / 4 :: real])
           < length [3 / 2, 5 / 4 :: real]"
    by blast+
  from inst n obtain ends where
    hist: "serverEndTimes_history [0, 1, 1] [3 / 2, 1 / 4, 2] 2 ! 1 = map Num ends"
    and lo: "1 \<le> servers ?r ! 1" and hi: "servers ?r ! 1 \<le> 2"
    and least: "\<forall>s < 2. ends ! (servers ?r ! 1 - 1) \<le> ends ! s"
    by blast
  have "map Num ends = [Num (3 / 2), Num 0]" using hist history_eval by simp
  then have ends: "ends = [3 / 2, 0]" by auto
  have "servers ?r ! 1 \<noteq> 1"
  proof
    assume "servers ?r ! 1 = 1"
    with least have "ends ! 0 \<le> ends ! 1" by simp
    then show False by (simp add: ends)
  qed
  with lo hi have srv: "servers ?r ! 1 = 2" by arith
  have "list_all (\<lambda>s. 0 \<le> s) [3 / 2, 1 / 4, 2 :: real]" by simp
  with busy sel srv show ?thesis using h1 h2 by simp
qed



end
